theory Spec2Isabelle
  imports Main "HOL-Library.AList" "HOL-Library.Sublist" "HOL-Library.Multiset" "HOL-Library.Word"
begin

section \<open>The dynamic tree and uploaded files\<close>

text \<open>
  \<^verbatim>\<open>type File struct { File multipart.File; Filename string; Size int64 }\<close>
  The \<^verbatim>\<open>multipart.File\<close> handle is an open reader; it is identified here by a number,
  a fresh one for every file that \<^verbatim>\<open>r.FormFile\<close> opens.
\<close>

record go_file =
  File :: nat
  Filename :: string
  Size :: int

text \<open>
  The values held by Go's \<^verbatim>\<open>interface{}\<close> in this program: what \<^verbatim>\<open>encoding/json\<close>
  decodes into (nil, bool, float64, string, \<^verbatim>\<open>[]interface{}\<close>,
  \<^verbatim>\<open>map[string]interface{}\<close>) and the \<^verbatim>\<open>File\<close> values that \<^verbatim>\<open>set\<close> stores.
  A float64 is kept as its 64 bits. A Go map is an association list that is
  read with \<^const>\<open>map_of\<close> and written with \<^const>\<open>AList.update\<close>, so that a key
  occurs at most once in a map that is only built this way. The nil interface
  value is \<open>JNull\<close>: it is both what JSON \<^verbatim>\<open>null\<close> decodes to and what a variable
  of type \<^verbatim>\<open>interface{}\<close> holds before it is assigned.
\<close>

datatype json =
    JNull
  | JBool bool
  | JNumber "64 word"
  | JString string
  | JArray "json list"
  | JObject "(string \<times> json) list"
  | JFile go_file

text \<open>The run-time panics of the program, and the Go errors it tells apart.\<close>

datatype go_error = EPIPE | OtherError

datatype panic =
    PanicTypeAssertion
  | PanicIndexOutOfRange
  | PanicError go_error

section \<open>Library functions used by \<^verbatim>\<open>set\<close>\<close>

text \<open>\<^verbatim>\<open>strings.Split(s, sep)\<close> for a separator of one byte: always at least one piece.\<close>

fun split :: "char \<Rightarrow> string \<Rightarrow> string list" where
  "split sep [] = [[]]"
| "split sep (c # cs) =
     (if c = sep then [] # split sep cs
      else (case split sep cs of
              [] \<Rightarrow> [[c]]
            | s # ss \<Rightarrow> (c # s) # ss))"

definition is_digit :: "char \<Rightarrow> bool" where
  "is_digit c = (let n = (of_char c :: nat) in 48 \<le> n \<and> n \<le> 57)"

definition digit_val :: "char \<Rightarrow> nat" where
  "digit_val c = of_char c - 48"

text \<open>
  \<^verbatim>\<open>regexp.MatchString(`\d+`, p)\<close>: the pattern is not anchored, so the call reports
  whether some substring of \<open>p\<close> is a non-empty run of ASCII digits, that is, whether
  \<open>p\<close> contains a digit. The pattern compiles, so the returned error is always nil.
\<close>

definition MatchString_digits :: "string \<Rightarrow> bool" where
  "MatchString_digits p = list_ex is_digit p"

text \<open>
  \<^verbatim>\<open>strconv.Atoi\<close> on a 64-bit platform, as value and error. It is
  \<^verbatim>\<open>ParseInt(s, 10, 0)\<close> (the fast path for short inputs computes the same pair):
  an optional sign, then \<^verbatim>\<open>ParseUint\<close> on the rest, which stops at the first byte
  that is not a digit (syntax error, value 0) or at the first overflow of 64 bits
  (range error, value \<open>2^64 - 1\<close>); a magnitude that does not fit into an
  \<^verbatim>\<open>int64\<close> is a range error with the nearest \<^verbatim>\<open>int64\<close> as value.
\<close>

datatype num_error = ErrSyntax | ErrRange

fun ParseUint_loop :: "nat \<Rightarrow> string \<Rightarrow> nat \<times> num_error option" where
  "ParseUint_loop n [] = (n, None)"
| "ParseUint_loop n (c # cs) =
     (if \<not> is_digit c then (0, Some ErrSyntax)
      else if n \<ge> (2 ^ 64 - 1) div 10 + 1 then (2 ^ 64 - 1, Some ErrRange)
      else (let n1 = n * 10 + digit_val c
            in if n1 > 2 ^ 64 - 1 then (2 ^ 64 - 1, Some ErrRange)
               else ParseUint_loop n1 cs))"

definition ParseUint :: "string \<Rightarrow> nat \<times> num_error option" where
  "ParseUint s = (if s = [] then (0, Some ErrSyntax) else ParseUint_loop 0 s)"

definition ParseInt :: "string \<Rightarrow> int \<times> num_error option" where
  "ParseInt s =
     (if s = [] then (0, Some ErrSyntax)
      else (let neg = (hd s = CHR ''-'');
                s1 = (if hd s = CHR ''+'' \<or> hd s = CHR ''-'' then tl s else s);
                (un, err) = ParseUint s1
            in if err = Some ErrSyntax then (0, err)
               else if \<not> neg \<and> un \<ge> 2 ^ 63 then (2 ^ 63 - 1, Some ErrRange)
               else if neg \<and> un > 2 ^ 63 then (- (2 ^ 63), Some ErrRange)
               else (if neg then - int un else int un, None)))"

definition Atoi :: "string \<Rightarrow> int \<times> num_error option" where
  "Atoi s = ParseInt s"

section \<open>The path resolver: \<^verbatim>\<open>set\<close>\<close>

text \<open>
  The elements of \<^verbatim>\<open>parts []interface{}\<close>: a \<^verbatim>\<open>string\<close> or an \<^verbatim>\<open>int\<close>.
\<close>

datatype part = PString string | PInt int

text \<open>
  The first loop of \<^verbatim>\<open>set\<close>:
  \<^verbatim>\<open>
  for _, p := range strings.Split(path, ".") {
      if isNumber, err := regexp.MatchString(`\d+`, p); err != nil {
          return err
      } else if isNumber {
          index, _ := strconv.Atoi(p)
          parts = append(parts, index)
      } else {
          parts = append(parts, p)
      }
  }
  \<close>
  The error of \<^verbatim>\<open>Atoi\<close> is dropped and its value kept.
\<close>

definition classify :: "string \<Rightarrow> part" where
  "classify p = (if MatchString_digits p then PInt (fst (Atoi p)) else PString p)"

definition path_parts :: "string \<Rightarrow> part list" where
  "path_parts path = map classify (split CHR ''.'' path)"

text \<open>
  The second loop of \<^verbatim>\<open>set\<close>:
  \<^verbatim>\<open>
  for i, p := range parts {
      last := i == len(parts)-1
      switch idx := p.(type) {
      case string:
          if last { m.(map[string]interface{})[idx] = v }
          else    { m = m.(map[string]interface{})[idx] }
      case int:
          if last { m.([]interface{})[idx] = v }
          else    { m = m.([]interface{})[idx] }
      }
  }
  return nil
  \<close>
  The cursor \<open>m\<close> walks down the tree and the last step writes into the map or the
  slice it has reached; the tree that JSON decoding built shares no node, so the
  write is seen from the root exactly at that place, and the model rebuilds the
  tree along the path. Every type assertion and every slice index can panic.
  Reading a key that a map does not have gives nil and leaves the map as it is.
\<close>

fun set_loop :: "json \<Rightarrow> json \<Rightarrow> part list \<Rightarrow> panic + json" where
  "set_loop v m [] = Inr m"
| "set_loop v m (PString idx # rest) =
     (case m of
        JObject kvs \<Rightarrow>
          (if rest = [] then Inr (JObject (AList.update idx v kvs))
           else (case map_of kvs idx of
                   None \<Rightarrow>
                     (case set_loop v JNull rest of
                        Inl e \<Rightarrow> Inl e
                      | Inr _ \<Rightarrow> Inr m)
                 | Some child \<Rightarrow>
                     (case set_loop v child rest of
                        Inl e \<Rightarrow> Inl e
                      | Inr child' \<Rightarrow> Inr (JObject (AList.update idx child' kvs)))))
      | _ \<Rightarrow> Inl PanicTypeAssertion)"
| "set_loop v m (PInt idx # rest) =
     (case m of
        JArray xs \<Rightarrow>
          (if idx < 0 \<or> idx \<ge> int (length xs) then Inl PanicIndexOutOfRange
           else if rest = [] then Inr (JArray (xs[nat idx := v]))
           else (case set_loop v (xs ! nat idx) rest of
                   Inl e \<Rightarrow> Inl e
                 | Inr child' \<Rightarrow> Inr (JArray (xs[nat idx := child']))))
      | _ \<Rightarrow> Inl PanicTypeAssertion)"

text \<open>
  \<^verbatim>\<open>func set(v interface{}, m interface{}, path string) error\<close>. It returns nil
  whenever it returns; the result here is the tree after the call, or the panic.
\<close>

definition set_path :: "json \<Rightarrow> json \<Rightarrow> string \<Rightarrow> panic + json" where
  "set_path v m path = set_loop v m (path_parts path)"

section \<open>The upload collector and the splicing loop\<close>

text \<open>
  The loop of \<^verbatim>\<open>ServeHTTP\<close> over the decoded upload map:
  \<^verbatim>\<open>
  for key, path := range uploadsMap {
      if file, header, err := r.FormFile(key); err != nil {
          ... http.Error(w, message, http.StatusBadRequest); return
      } else {
          uploads[File{File: file, Size: header.Size, Filename: header.Filename}] = path
      }
  }
  \<close>
  The upload map is given as the list of its entries in the order in which
  \<^verbatim>\<open>range\<close> visits them; \<open>files\<close> gives, for a field name, the \<^verbatim>\<open>File\<close> value
  built from what \<^verbatim>\<open>r.FormFile\<close> returns, and nothing for a name without a file
  part. The result is \<open>None\<close> where the source writes the response and returns.
\<close>

fun collect_uploads ::
  "(string \<times> go_file) list \<Rightarrow> (string \<times> string list) list \<Rightarrow>
   (go_file \<times> string list) list \<Rightarrow> (go_file \<times> string list) list option" where
  "collect_uploads files [] uploads = Some uploads"
| "collect_uploads files ((key, path) # rest) uploads =
     (case map_of files key of
        None \<Rightarrow> None
      | Some file \<Rightarrow> collect_uploads files rest (AList.update file path uploads))"

text \<open>
  \<^verbatim>\<open>
  for file, paths := range uploads {
      for _, path := range paths {
          if err := set(file, operations, path); err != nil { errHandler(err) }
      }
  }
  \<close>
  \<^verbatim>\<open>set\<close> returns nil or panics, so \<^verbatim>\<open>errHandler\<close> is not reached here. The list
  of uploads is in the order in which \<^verbatim>\<open>range\<close> visits the map.
\<close>

fun set_paths :: "go_file \<Rightarrow> json \<Rightarrow> string list \<Rightarrow> panic + json" where
  "set_paths file operations [] = Inr operations"
| "set_paths file operations (path # paths) =
     (case set_path (JFile file) operations path of
        Inl e \<Rightarrow> Inl e
      | Inr operations' \<Rightarrow> set_paths file operations' paths)"

fun set_uploads :: "json \<Rightarrow> (go_file \<times> string list) list \<Rightarrow> panic + json" where
  "set_uploads operations [] = Inr operations"
| "set_uploads operations ((file, paths) # uploads) =
     (case set_paths file operations paths of
        Inl e \<Rightarrow> Inl e
      | Inr operations' \<Rightarrow> set_uploads operations' uploads)"

section \<open>Requests, the executor and the response writer\<close>

record go_context =
  ctx_header :: "(string \<times> string) list"
  ctx_remote_ip :: string

text \<open>
  \<^verbatim>\<open>type Request struct { OperationName, Query string;
  Variables map[string]interface{}; Context context.Context }\<close>.
  A nil map and a nil context are \<open>None\<close>.
\<close>

record request =
  OperationName :: string
  Query :: string
  Variables :: "(string \<times> json) list option"
  Context :: "go_context option"

definition zero_request :: request where
  "zero_request = \<lparr>OperationName = [], Query = [], Variables = None, Context = None\<rparr>"

text \<open>
  What the handler reads of \<^verbatim>\<open>*http.Request\<close>. \<open>ParseMultipartForm\<close> is the error
  that \<^verbatim>\<open>r.ParseMultipartForm(maxMemory)\<close> returns (\<open>None\<close> is nil), \<open>Form\<close> and
  \<open>FormFiles\<close> are the parsed form after that call.
\<close>

record http_request =
  Method :: string
  Header :: "(string \<times> string) list"
  URLQuery :: "(string \<times> string) list"
  ContentLength :: int
  Body :: string
  RemoteAddr :: string
  ParseMultipartForm :: "int \<Rightarrow> go_error option"
  Form :: "(string \<times> string) list"
  FormFiles :: "(string \<times> go_file) list"

text \<open>\<^verbatim>\<open>Get\<close> of \<^verbatim>\<open>http.Header\<close> and \<^verbatim>\<open>url.Values\<close>: the empty string for a missing key.\<close>

definition values_get :: "(string \<times> string) list \<Rightarrow> string \<Rightarrow> string" where
  "values_get vs key = (case map_of vs key of None \<Rightarrow> [] | Some v \<Rightarrow> v)"

text \<open>
  The value that \<^verbatim>\<open>json.NewEncoder(w).Encode\<close> is given: the result of one call of
  the executor, or the slice \<^verbatim>\<open>result\<close> of the batch path, whose slots are nil
  (\<open>None\<close>) until they are assigned.
\<close>

datatype 'r payload = Single 'r | Batch "'r option list"

text \<open>
  The library calls whose results the handler only branches on. A pair of value and
  error is a sum with the error on the left; a lone error is an option, \<open>None\<close> for nil.
  \<open>RangeUploads\<close> is the order in which \<^verbatim>\<open>range\<close> visits the map \<^verbatim>\<open>uploads\<close>.
\<close>

record 'r library =
  SplitHostPort :: "string \<Rightarrow> go_error + string"
  Decode :: "string \<Rightarrow> go_error + json"
  Unmarshal :: "string \<Rightarrow> go_error + json"
  UnmarshalMap :: "string \<Rightarrow> go_error + (string \<times> string list) list"
  UnmarshalVariables :: "string \<Rightarrow> go_error + (string \<times> json) list option"
  Encode :: "'r payload \<Rightarrow> go_error option"
  RangeUploads :: "(go_file \<times> string list) list \<Rightarrow> (go_file \<times> string list) list"

text \<open>
  \<^verbatim>\<open>type Handler struct { MaxBodySize int64; Executor Executor; Client bool }\<close>.
  The executor may keep a state of its own from one call to the next.
\<close>

record ('r, 's) handler =
  MaxBodySize :: int
  Executor :: "request \<Rightarrow> 's \<Rightarrow> 'r \<times> 's"
  Client :: bool

text \<open>
  The \<^verbatim>\<open>http.ResponseWriter\<close>: its header map, the status once it is written
  (\<open>None\<close> before; the server then sends 200 when the handler returns) and the body
  written so far.
\<close>

datatype 'r chunk = Text string | Json "'r payload"

record 'r response_writer =
  WHeader :: "(string \<times> string) list"
  Status :: "nat option"
  Written :: "'r chunk list"

definition header_set :: "string \<Rightarrow> string \<Rightarrow> 'r response_writer \<Rightarrow> 'r response_writer" where
  "header_set key v w = w\<lparr>WHeader := AList.update key v (WHeader w)\<rparr>"

definition WriteHeader :: "nat \<Rightarrow> 'r response_writer \<Rightarrow> 'r response_writer" where
  "WriteHeader code w = (if Status w = None then w\<lparr>Status := Some code\<rparr> else w)"

definition Write :: "'r chunk \<Rightarrow> 'r response_writer \<Rightarrow> 'r response_writer" where
  "Write c w = (let w1 = WriteHeader 200 w in w1\<lparr>Written := Written w1 @ [c]\<rparr>)"

text \<open>\<^verbatim>\<open>http.Error(w, message, code)\<close>: a plain-text response with the message and a newline.\<close>

definition http_Error :: "'r response_writer \<Rightarrow> string \<Rightarrow> nat \<Rightarrow> 'r response_writer" where
  "http_Error w message code =
     Write (Text (message @ [CHR 0x0A]))
       (WriteHeader code
          (header_set ''X-Content-Type-Options'' ''nosniff''
             (header_set ''Content-Type'' ''text/plain; charset=utf-8'' w)))"

text \<open>
  The state that one call of \<^verbatim>\<open>ServeHTTP\<close> changes: the response writer, the
  requests handed to the executor so far, in order, and the executor's own state.
  A call ends by returning or by a panic that nothing recovers.
\<close>

record ('r, 's) state =
  W :: "'r response_writer"
  Calls :: "request list"
  ExecState :: "'s"

datatype outcome = Returned | Panicked panic

definition call_Executor ::
  "('r, 's) handler \<Rightarrow> request \<Rightarrow> ('r, 's) state \<Rightarrow> 'r \<times> ('r, 's) state" where
  "call_Executor h rq st =
     (let (res, es) = Executor h rq (ExecState st)
      in (res, st\<lparr>Calls := Calls st @ [rq], ExecState := es\<rparr>))"

text \<open>
  \<^verbatim>\<open>
  func errHandler(err error) {
      if errors.Is(err, syscall.EPIPE) { return } else { panic(err) }
  }
  \<close>
\<close>

definition errHandler :: "go_error \<Rightarrow> panic option" where
  "errHandler err = (if err = EPIPE then None else Some (PanicError err))"

text \<open>
  \<^verbatim>\<open>getRemoteIp\<close>. The keys of an \<^verbatim>\<open>http.Header\<close> are in canonical form and
  \<^verbatim>\<open>Get\<close> brings its argument into that form before it looks it up, so that
  \<^verbatim>\<open>r.Header.Get("X-Real-IP")\<close> reads the header stored under \<open>X-Real-Ip\<close>.
\<close>

definition getRemoteIp :: "'r library \<Rightarrow> http_request \<Rightarrow> string" where
  "getRemoteIp lib r =
     (let realIp = values_get (Header r) ''X-Real-Ip''
      in if realIp \<noteq> [] then realIp
         else (let ips = values_get (Header r) ''X-Forwarded-For''
               in if ips \<noteq> [] then (case split CHR '','' ips of [] \<Rightarrow> [] | ip # _ \<Rightarrow> ip)
                  else (case SplitHostPort lib (RemoteAddr r) of
                          Inr ip \<Rightarrow> ip
                        | Inl _ \<Rightarrow> RemoteAddr r)))"

definition request_context :: "http_request \<Rightarrow> string \<Rightarrow> go_context option" where
  "request_context r remoteIp = Some \<lparr>ctx_header = Header r, ctx_remote_ip = remoteIp\<rparr>"

section \<open>The handler: \<^verbatim>\<open>ServeHTTP\<close>\<close>

text \<open>
  The branch \<^verbatim>\<open>r.Method == "GET"\<close>. Each \<^verbatim>\<open>http.Error\<close> is followed by
  \<^verbatim>\<open>return\<close>; an \<^verbatim>\<open>Encode\<close> that fails is taken to have written nothing.
\<close>

definition serve_GET ::
  "'r library \<Rightarrow> ('r, 's) handler \<Rightarrow> http_request \<Rightarrow> string \<Rightarrow> ('r, 's) state \<Rightarrow>
   outcome \<times> ('r, 's) state" where
  "serve_GET lib h r remoteIp st =
     (let request0 = zero_request\<lparr>Context := request_context r remoteIp\<rparr>;
          query = values_get (URLQuery r) ''query''
      in if length query = 0
         then (Returned, st\<lparr>W := http_Error (W st) ''Missing query'' 400\<rparr>)
         else
           (let request1 = request0\<lparr>Query := query\<rparr>;
                variables = values_get (URLQuery r) ''variables''
            in case (if length variables = 0 then Inr (request1\<lparr>Variables := Some []\<rparr>)
                     else (case UnmarshalVariables lib variables of
                             Inl err \<Rightarrow> Inl err
                           | Inr vs \<Rightarrow> Inr (request1\<lparr>Variables := vs\<rparr>))) of
                 Inl err \<Rightarrow> (Returned, st\<lparr>W := http_Error (W st) ''Bad variables'' 400\<rparr>)
               | Inr request2 \<Rightarrow>
                   (let name = values_get (URLQuery r) ''operationName'';
                        request3 = (if length name = 0 then request2\<lparr>OperationName := []\<rparr>
                                    else request2\<lparr>OperationName := name\<rparr>);
                        (result, st1) = call_Executor h request3 st
                    in case Encode lib (Single result) of
                         Some err \<Rightarrow>
                           (Returned, st1\<lparr>W := http_Error (W st1) ''Bad operation name'' 400\<rparr>)
                       | None \<Rightarrow>
                           (Returned, st1\<lparr>W := Write (Json (Single result)) (W st1)\<rparr>))))"

text \<open>
  \<^verbatim>\<open>strings.SplitN(r.Header.Get("Content-Type"), ";", 2)[0]\<close>: the header up to its
  first semicolon.
\<close>

definition content_type :: "http_request \<Rightarrow> string" where
  "content_type r = takeWhile (\<lambda>c. c \<noteq> CHR '';'') (values_get (Header r) ''Content-Type'')"

definition json_syntax_error :: "('r, 's) state \<Rightarrow> outcome \<times> ('r, 's) state" where
  "json_syntax_error st = (Returned, st\<lparr>W := http_Error (W st) ''JSON syntax error'' 400\<rparr>)"

text \<open>
  The \<^verbatim>\<open>switch contentType\<close> of the POST branch: on the left the call has
  ended (a response was written and the handler returned, or it panicked), on the
  right is the value of \<^verbatim>\<open>operations\<close> with which the handler goes on. A content
  type of no case leaves \<^verbatim>\<open>operations\<close> nil, and so does a body whose
  \<^verbatim>\<open>ContentLength\<close> is not positive.
\<close>

definition decode_multipart ::
  "'r library \<Rightarrow> ('r, 's) handler \<Rightarrow> http_request \<Rightarrow> ('r, 's) state \<Rightarrow>
   (outcome \<times> ('r, 's) state) + json" where
  "decode_multipart lib h r st =
     (case (case ParseMultipartForm r (MaxBodySize h) of
              None \<Rightarrow> None
            | Some err \<Rightarrow> errHandler err) of
        Some p \<Rightarrow> Inl (Panicked p, st)
      | None \<Rightarrow>
          (case UnmarshalMap lib (values_get (Form r) ''map'') of
             Inl err \<Rightarrow> Inl (json_syntax_error st)
           | Inr uploadsMap \<Rightarrow>
               (case collect_uploads (FormFiles r) uploadsMap [] of
                  None \<Rightarrow> Inl (json_syntax_error st)
                | Some uploads \<Rightarrow>
                    (case Unmarshal lib (values_get (Form r) ''operations'') of
                       Inl err \<Rightarrow> Inl (json_syntax_error st)
                     | Inr operations \<Rightarrow>
                         (case set_uploads operations (RangeUploads lib uploads) of
                            Inl p \<Rightarrow> Inl (Panicked p, st)
                          | Inr operations' \<Rightarrow> Inr operations')))))"

definition decode_POST ::
  "'r library \<Rightarrow> ('r, 's) handler \<Rightarrow> http_request \<Rightarrow> ('r, 's) state \<Rightarrow>
   (outcome \<times> ('r, 's) state) + json" where
  "decode_POST lib h r st =
     (let contentType = content_type r
      in if contentType = ''text/plain'' \<or> contentType = ''application/json''
         then (if ContentLength r > 0
               then (case Decode lib (Body r) of
                       Inl err \<Rightarrow> Inl (json_syntax_error st)
                     | Inr operations \<Rightarrow> Inr operations)
               else Inr JNull)
         else if contentType = ''multipart/form-data''
         then decode_multipart lib h r st
         else Inr JNull)"

text \<open>
  The request built in \<^verbatim>\<open>case map[string]interface{}\<close>, before its context is
  set: each field is taken when the key is there, its value is not nil and has the
  type of the field.
\<close>

definition single_request :: "(string \<times> json) list \<Rightarrow> request" where
  "single_request data =
     (let request0 = zero_request;
          request1 = (case map_of data ''operationName'' of
                        Some value \<Rightarrow>
                          (if value \<noteq> JNull
                           then (case value of JString tmp \<Rightarrow> request0\<lparr>OperationName := tmp\<rparr>
                                 | _ \<Rightarrow> request0)
                           else request0)
                      | None \<Rightarrow> request0);
          request2 = (case map_of data ''query'' of
                        Some value \<Rightarrow>
                          (if value \<noteq> JNull
                           then (case value of JString tmp \<Rightarrow> request1\<lparr>Query := tmp\<rparr>
                                 | _ \<Rightarrow> request1)
                           else request1)
                      | None \<Rightarrow> request1)
      in (case map_of data ''variables'' of
            Some value \<Rightarrow>
              (if value \<noteq> JNull
               then (case value of JObject tmp \<Rightarrow> request2\<lparr>Variables := Some tmp\<rparr>
                     | _ \<Rightarrow> request2)
               else request2)
          | None \<Rightarrow> request2))"

text \<open>The request built for one element of a batch: the same without the nil tests.\<close>

definition batch_request :: "(string \<times> json) list \<Rightarrow> request" where
  "batch_request data =
     (let request0 = zero_request;
          request1 = (case map_of data ''operationName'' of
                        Some (JString tmp) \<Rightarrow> request0\<lparr>OperationName := tmp\<rparr>
                      | _ \<Rightarrow> request0);
          request2 = (case map_of data ''query'' of
                        Some (JString tmp) \<Rightarrow> request1\<lparr>Query := tmp\<rparr>
                      | _ \<Rightarrow> request1)
      in (case map_of data ''variables'' of
            Some (JObject tmp) \<Rightarrow> request2\<lparr>Variables := Some tmp\<rparr>
          | _ \<Rightarrow> request2))"

text \<open>
  \<^verbatim>\<open>
  for index, operation := range data {
      data := operation.(map[string]interface{})
      request := Request{} ...
      result[index] = self.Executor(&request)
  }
  \<close>
  The type assertion has one result, so it panics on an element that is not a map.
\<close>

fun batch_loop ::
  "('r, 's) handler \<Rightarrow> go_context option \<Rightarrow> json list \<Rightarrow> nat \<Rightarrow> 'r option list \<Rightarrow>
   ('r, 's) state \<Rightarrow> panic option \<times> 'r option list \<times> ('r, 's) state" where
  "batch_loop h ctx [] index result st = (None, result, st)"
| "batch_loop h ctx (operation # rest) index result st =
     (case operation of
        JObject data \<Rightarrow>
          (let request = (batch_request data)\<lparr>Context := ctx\<rparr>;
               (res, st1) = call_Executor h request st
           in batch_loop h ctx rest (Suc index) (result[index := Some res]) st1)
      | _ \<Rightarrow> (Some PanicTypeAssertion, result, st))"

text \<open>The \<^verbatim>\<open>switch data := operations.(type)\<close> of the POST branch.\<close>

definition execute ::
  "'r library \<Rightarrow> ('r, 's) handler \<Rightarrow> http_request \<Rightarrow> string \<Rightarrow> json \<Rightarrow> ('r, 's) state \<Rightarrow>
   outcome \<times> ('r, 's) state" where
  "execute lib h r remoteIp operations st =
     (case operations of
        JObject data \<Rightarrow>
          (let request = (single_request data)\<lparr>Context := request_context r remoteIp\<rparr>;
               (result, st1) = call_Executor h request st
           in case Encode lib (Single result) of
                Some err \<Rightarrow> json_syntax_error st1
              | None \<Rightarrow> (Returned, st1\<lparr>W := Write (Json (Single result)) (W st1)\<rparr>))
      | JArray data \<Rightarrow>
          (case batch_loop h (request_context r remoteIp) data 0
                  (replicate (length data) None) st of
             (Some p, result, st1) \<Rightarrow> (Panicked p, st1)
           | (None, result, st1) \<Rightarrow>
               (case Encode lib (Batch result) of
                  Some err \<Rightarrow>
                    (case errHandler err of
                       Some p \<Rightarrow> (Panicked p, st1)
                     | None \<Rightarrow> (Returned, st1))
                | None \<Rightarrow> (Returned, st1\<lparr>W := Write (Json (Batch result)) (W st1)\<rparr>)))
      | _ \<Rightarrow> (Returned, st\<lparr>W := WriteHeader 400 (W st)\<rparr>))"

definition ServeHTTP ::
  "'r library \<Rightarrow> ('r, 's) handler \<Rightarrow> http_request \<Rightarrow> ('r, 's) state \<Rightarrow>
   outcome \<times> ('r, 's) state" where
  "ServeHTTP lib h r st0 =
     (let st = st0\<lparr>W := header_set ''Content-Type'' ''application/json; charset=utf-8'' (W st0)\<rparr>;
          remoteIp = getRemoteIp lib r
      in if Method r = ''GET'' then serve_GET lib h r remoteIp st
         else if Method r = ''POST''
         then (case decode_POST lib h r st of
                 Inl ended \<Rightarrow> ended
               | Inr operations \<Rightarrow> execute lib h r remoteIp operations st)
         else (Returned, st))"

text \<open>The state in which the server calls the handler: nothing written, nothing executed.\<close>

definition fresh :: "'s \<Rightarrow> ('r, 's) state" where
  "fresh es = \<lparr>W = \<lparr>WHeader = [], Status = None, Written = []\<rparr>, Calls = [], ExecState = es\<rparr>"

section \<open>Reading the tree along a path\<close>

text \<open>
  One step of the cursor of \<^verbatim>\<open>set\<close> that is not the last:
  \<^verbatim>\<open>m = m.(map[string]interface{})[idx]\<close> or \<^verbatim>\<open>m = m.([]interface{})[idx]\<close>, with
  the panics of the type assertion and of the index. \<open>cursor_walk\<close> is the value
  that the cursor has reached after the given parts.
\<close>

fun cursor_step :: "json \<Rightarrow> part \<Rightarrow> panic + json" where
  "cursor_step m (PString idx) =
     (case m of
        JObject kvs \<Rightarrow> Inr (case map_of kvs idx of None \<Rightarrow> JNull | Some child \<Rightarrow> child)
      | _ \<Rightarrow> Inl PanicTypeAssertion)"
| "cursor_step m (PInt idx) =
     (case m of
        JArray xs \<Rightarrow>
          (if idx < 0 \<or> idx \<ge> int (length xs) then Inl PanicIndexOutOfRange
           else Inr (xs ! nat idx))
      | _ \<Rightarrow> Inl PanicTypeAssertion)"

fun cursor_walk :: "json \<Rightarrow> part list \<Rightarrow> panic + json" where
  "cursor_walk m [] = Inr m"
| "cursor_walk m (p # ps) =
     (case cursor_step m p of
        Inl e \<Rightarrow> Inl e
      | Inr m' \<Rightarrow> cursor_walk m' ps)"

text \<open>
  A node matches a part when it is a map and the part a key, or a slice and the part
  an index within its length.
\<close>

fun fits :: "json \<Rightarrow> part \<Rightarrow> bool" where
  "fits (JObject kvs) (PString idx) = True"
| "fits (JArray xs) (PInt idx) = (0 \<le> idx \<and> idx < int (length xs))"
| "fits _ _ = False"

fun is_object :: "json \<Rightarrow> bool" where
  "is_object (JObject kvs) = True"
| "is_object _ = False"

fun is_composite :: "json \<Rightarrow> bool" where
  "is_composite (JObject kvs) = True"
| "is_composite (JArray xs) = True"
| "is_composite _ = False"

text \<open>
  What a path that read a value without children holds after the uploads of the list
  have been spliced, in that order: the file of the last entry that names it.
\<close>

fun holds_after :: "(go_file \<times> string list) list \<Rightarrow> part list \<Rightarrow> json \<Rightarrow> json" where
  "holds_after [] p x = x"
| "holds_after ((file, paths) # uploads) p x =
     holds_after uploads p (if p \<in> path_parts ` set paths then JFile file else x)"

text \<open>Reading a Go map that may be nil: a nil map reads as the map without entries.\<close>

definition entries :: "(string \<times> json) list option \<Rightarrow> (string \<times> json) list" where
  "entries m = (case m of None \<Rightarrow> [] | Some kvs \<Rightarrow> kvs)"

text \<open>
  Calling the executor on the requests of a list, one after the other, each call in
  the state the one before has left: the results in that order and the last state.
\<close>

fun sequential_results ::
  "('r, 's) handler \<Rightarrow> request list \<Rightarrow> 's \<Rightarrow> 'r list \<times> 's" where
  "sequential_results h [] es = ([], es)"
| "sequential_results h (rq # rqs) es =
     (let (res, es1) = Executor h rq es;
          (ress, es2) = sequential_results h rqs es1
      in (res # ress, es2))"

text \<open>The request that the batch loop builds for an element that is a map.\<close>

definition element_request :: "go_context option \<Rightarrow> json \<Rightarrow> request" where
  "element_request ctx operation =
     (case operation of
        JObject data \<Rightarrow> (batch_request data)\<lparr>Context := ctx\<rparr>
      | _ \<Rightarrow> zero_request)"

section \<open>The rule of the specification for a segment\<close>

text \<open>
  The parts of a path as the specification reads it: a segment is an index when it
  consists of digits only (\<^verbatim>\<open>^\d+$\<close>), and then it is the number that its digits
  write; every other segment is a key.
\<close>

definition all_digits :: "string \<Rightarrow> bool" where
  "all_digits p = (p \<noteq> [] \<and> list_all is_digit p)"

fun decimal :: "nat \<Rightarrow> string \<Rightarrow> nat" where
  "decimal n [] = n"
| "decimal n (c # cs) = decimal (n * 10 + digit_val c) cs"

definition spec_classify :: "string \<Rightarrow> part" where
  "spec_classify p = (if all_digits p then PInt (int (decimal 0 p)) else PString p)"

definition spec_parts :: "string \<Rightarrow> part list" where
  "spec_parts path = map spec_classify (split CHR ''.'' path)"

text \<open>
  A segment is plain when \<^verbatim>\<open>set\<close> reads it as this rule does: it consists of digits
  only and writes a number that fits into Go's \<^verbatim>\<open>int\<close>, or it has no digit at all. A
  path is plain when all its segments are.
\<close>

definition plain_segment :: "string \<Rightarrow> bool" where
  "plain_segment p = ((all_digits p \<and> decimal 0 p < 2 ^ 63) \<or> \<not> list_ex is_digit p)"

definition plain_path :: "string \<Rightarrow> bool" where
  "plain_path path = list_all plain_segment (split CHR ''.'' path)"

section \<open>Concrete requests\<close>

text \<open>
  Two uploaded files, an upload map that sends the first to two places and the
  second to one, and an operations tree with a null at each of the three places.
\<close>

definition ex_file0 :: go_file where
  "ex_file0 = \<lparr>File = 0, Filename = ''a.txt'', Size = 3\<rparr>"

definition ex_file1 :: go_file where
  "ex_file1 = \<lparr>File = 1, Filename = ''b.txt'', Size = 5\<rparr>"

definition ex_files :: "(string \<times> go_file) list" where
  "ex_files = [(''0'', ex_file0), (''1'', ex_file1)]"

definition ex_map :: "(string \<times> string list) list" where
  "ex_map = [(''0'', [''variables.a'', ''variables.list.0'']), (''1'', [''variables.b''])]"

text \<open>An upload map whose two entries both name the place \<open>variables.a\<close>.\<close>

definition ex_colliding_map :: "(string \<times> string list) list" where
  "ex_colliding_map =
     [(''0'', [''variables.a'', ''variables.b'']),
      (''1'', [''variables.a'', ''variables.list.0''])]"

definition ex_tree :: json where
  "ex_tree =
     JObject [(''query'', JString ''mutation''),
              (''variables'',
               JObject [(''a'', JNull), (''b'', JNull), (''list'', JArray [JNull])])]"

definition ex_spliced :: json where
  "ex_spliced =
     JObject [(''query'', JString ''mutation''),
              (''variables'',
               JObject [(''a'', JFile ex_file0), (''b'', JFile ex_file1),
                        (''list'', JArray [JFile ex_file0])])]"

text \<open>
  An executor that numbers its calls: it answers with the number of the call and
  the query it was given, and counts in its state.
\<close>

definition ex_executor :: "request \<Rightarrow> nat \<Rightarrow> (nat \<times> string) \<times> nat" where
  "ex_executor rq n = ((n, Query rq), Suc n)"

definition ex_handler :: "(nat \<times> string, nat) handler" where
  "ex_handler = \<lparr>MaxBodySize = 1048576, Executor = ex_executor, Client = False\<rparr>"

text \<open>
  The JSON texts of the requests below with the values they decode to; every other
  text counts as malformed. The number 1 is the float64 with the bits
  \<open>0x3FF0000000000000\<close>.
\<close>

definition ex_decoded :: "(string \<times> json) list" where
  \<open>ex_decoded =
     [(''[{"query":"a"},{"query":"b"}]'',
       JArray [JObject [(''query'', JString ''a'')], JObject [(''query'', JString ''b'')]]),
      (''[{"query":"a"},1]'',
       JArray [JObject [(''query'', JString ''a'')], JNumber 0x3FF0000000000000]),
      (''[1]'', JArray [JNumber 0x3FF0000000000000]),
      (''{"query":"q","variables":"x"}'',
       JObject [(''query'', JString ''q''), (''variables'', JString ''x'')]),
      (''{"query":"mutation","variables":{"a":null,"b":null,"list":[null]}}'', ex_tree),
      (''null'', JNull)]\<close>

definition ex_json :: "string \<Rightarrow> go_error + json" where
  "ex_json s = (case map_of ex_decoded s of None \<Rightarrow> Inl OtherError | Some v \<Rightarrow> Inr v)"

definition ex_upload_maps :: "(string \<times> (string \<times> string list) list) list" where
  \<open>ex_upload_maps =
     [(''{"0":["variables.a","variables.list.0"],"1":["variables.b"]}'', ex_map),
      (''{"0":["variables.a"],"2":["variables.b"]}'',
       [(''0'', [''variables.a'']), (''2'', [''variables.b''])]),
      (''{"2":["variables.a"]}'', [(''2'', [''variables.a''])]),
      (''{"0":["variables.a","variables.a.x"]}'', [(''0'', [''variables.a'', ''variables.a.x''])]),
      (''{"0":["variables.a"]}'', [(''0'', [''variables.a''])])]\<close>

definition ex_upload_map :: "string \<Rightarrow> go_error + (string \<times> string list) list" where
  "ex_upload_map s =
     (case map_of ex_upload_maps s of None \<Rightarrow> Inl OtherError | Some m \<Rightarrow> Inr m)"

text \<open>
  A library in which every encoding succeeds and \<^verbatim>\<open>range\<close> visits the uploads in
  the reverse of the order in which they were stored. Its \<open>SplitHostPort\<close> takes the
  text before the first colon, which is the host of the one address used below.
\<close>

definition ex_library :: "(nat \<times> string) library" where
  "ex_library =
     \<lparr>SplitHostPort = (\<lambda>addr. Inr (takeWhile (\<lambda>c. c \<noteq> CHR '':'') addr)),
      Decode = ex_json,
      Unmarshal = ex_json,
      UnmarshalMap = ex_upload_map,
      UnmarshalVariables = (\<lambda>s. Inl OtherError),
      Encode = (\<lambda>v. None),
      RangeUploads = rev\<rparr>"

definition ex_request ::
  "string \<Rightarrow> string \<Rightarrow> string \<Rightarrow> (string \<times> string) list \<Rightarrow> http_request" where
  "ex_request method ctype body form =
     \<lparr>Method = method,
      Header = [(''Content-Type'', ctype)],
      URLQuery = [],
      ContentLength = int (length body),
      Body = body,
      RemoteAddr = ''192.0.2.7:4711'',
      ParseMultipartForm = (\<lambda>maxMemory. None),
      Form = form,
      FormFiles = ex_files\<rparr>"

definition ex_context :: "string \<Rightarrow> go_context option" where
  "ex_context ctype = Some \<lparr>ctx_header = [(''Content-Type'', ctype)], ctx_remote_ip = ''192.0.2.7''\<rparr>"

definition ex_json_header :: "(string \<times> string) list" where
  "ex_json_header = [(''Content-Type'', ''application/json; charset=utf-8'')]"

definition ex_put :: http_request where
  "ex_put = ex_request ''PUT'' ''application/json'' [] []"

definition ex_empty_post :: http_request where
  "ex_empty_post = ex_request ''POST'' ''application/json'' [] []"

definition ex_batch_post :: http_request where
  \<open>ex_batch_post =
     ex_request ''POST'' ''application/json; charset=utf-8'' ''[{"query":"a"},{"query":"b"}]'' []\<close>

definition ex_bad_batch_post :: http_request where
  \<open>ex_bad_batch_post = ex_request ''POST'' ''application/json'' ''[{"query":"a"},1]'' []\<close>

definition ex_number_batch_post :: http_request where
  \<open>ex_number_batch_post = ex_request ''POST'' ''application/json'' ''[1]'' []\<close>

definition ex_single_post :: http_request where
  \<open>ex_single_post =
     ex_request ''POST'' ''application/json'' ''{"query":"q","variables":"x"}'' []\<close>

definition ex_operations_text :: string where
  \<open>ex_operations_text = ''{"query":"mutation","variables":{"a":null,"b":null,"list":[null]}}''\<close>

definition ex_multipart :: "string \<Rightarrow> string \<Rightarrow> http_request" where
  "ex_multipart operations upload_map =
     ex_request ''POST'' ''multipart/form-data; boundary=x'' []
       [(''operations'', operations), (''map'', upload_map)]"

definition ex_missing_part_post :: http_request where
  \<open>ex_missing_part_post = ex_multipart ex_operations_text ''{"2":["variables.a"]}''\<close>

definition ex_second_part_missing_post :: http_request where
  \<open>ex_second_part_missing_post =
     ex_multipart ex_operations_text ''{"0":["variables.a"],"2":["variables.b"]}''\<close>

definition ex_null_operations_post :: http_request where
  \<open>ex_null_operations_post = ex_multipart ''null'' ''{"0":["variables.a"]}''\<close>

definition ex_below_file_post :: http_request where
  \<open>ex_below_file_post =
     ex_multipart ex_operations_text ''{"0":["variables.a","variables.a.x"]}''\<close>

section \<open>Properties of the path resolver\<close>

lemma split_nonempty: "split sep s \<noteq> []"
  by (induction s) (auto split: list.splits)

lemma path_parts_nonempty: "path_parts path \<noteq> []"
  by (simp add: path_parts_def split_nonempty)

lemma set_loop_mismatch:
  "cursor_walk m pre = Inr n \<Longrightarrow> cursor_step n seg = Inl p \<Longrightarrow>
   set_loop v m (pre @ seg # post) = Inl p"
proof (induction pre arbitrary: m)
  case Nil
  then show ?case
    by (cases seg; cases m) (auto split: if_splits)
next
  case (Cons a pre)
  then show ?case
    by (cases a; cases m) (auto split: if_splits option.splits sum.splits)
qed

lemma cursor_step_fits: "(\<exists>p. cursor_step n seg = Inl p) \<longleftrightarrow> \<not> fits n seg"
  by (cases seg; cases n) auto

lemma set_loop_leaf:
  "\<not> is_composite m \<Longrightarrow> q \<noteq> [] \<Longrightarrow> set_loop v m q = Inl PanicTypeAssertion"
  by (cases q; cases "hd q"; cases m) auto

lemma cursor_walk_leaf:
  "\<not> is_composite m \<Longrightarrow> q \<noteq> [] \<Longrightarrow> cursor_walk m q = Inl PanicTypeAssertion"
  by (cases q; cases "hd q"; cases m) auto

lemma set_loop_reads_back:
  "set_loop v m q = Inr m' \<Longrightarrow> q \<noteq> [] \<Longrightarrow> cursor_walk m' q = Inr v"
proof (induction q arbitrary: m m')
  case Nil
  then show ?case by simp
next
  case (Cons a q)
  then show ?case
    by (cases a; cases m) (auto simp: update_conv' set_loop_leaf split: if_splits option.splits sum.splits)
qed

lemma set_loop_succeeds:
  "cursor_walk m q = Inr x \<Longrightarrow> q \<noteq> [] \<Longrightarrow> \<exists>m'. set_loop v m q = Inr m'"
proof (induction q arbitrary: m)
  case Nil
  then show ?case by simp
next
  case (Cons a q)
  show ?case
  proof (cases "q = []")
    case True
    with Cons.prems show ?thesis
      by (cases a; cases m) (auto split: if_splits)
  next
    case False
    from Cons.prems obtain n where n: "cursor_step m a = Inr n" "cursor_walk n q = Inr x"
      by (auto split: sum.splits)
    from n(2) False have comp: "is_composite n"
      using cursor_walk_leaf by fastforce
    from Cons.IH [OF n(2) False] obtain n' where n': "set_loop v n q = Inr n'" by blast
    from n(1) n' False comp show ?thesis
      by (cases a; cases m) (auto split: if_splits option.splits)
  qed
qed

lemma set_loop_elsewhere:
  "set_loop v m q = Inr m' \<Longrightarrow> cursor_walk m q = Inr y \<Longrightarrow> \<not> is_composite y \<Longrightarrow>
   cursor_walk m p = Inr x \<Longrightarrow> \<not> is_composite x \<Longrightarrow> p \<noteq> q \<Longrightarrow>
   cursor_walk m' p = Inr x"
proof (induction q arbitrary: m m' p)
  case Nil
  then show ?case by simp
next
  case (Cons a q)
  show ?case
  proof (cases p)
    case Nil
    with Cons.prems show ?thesis
      using cursor_walk_leaf [of m "a # q"] by auto
  next
    case (Cons b p')
    show ?thesis
    proof (cases "a = b")
      case False
      with Cons.prems(1,4) Cons show ?thesis
        by (cases a; cases b; cases m)
           (auto simp: update_conv' set_loop_leaf split: if_splits option.splits sum.splits)
    next
      case True
      from Cons.prems(2) obtain n where n: "cursor_step m a = Inr n" "cursor_walk n q = Inr y"
        by (auto split: sum.splits)
      from Cons.prems(4) Cons True n(1) have px: "cursor_walk n p' = Inr x" by simp
      from Cons.prems(6) Cons True have ne: "p' \<noteq> q" by simp
      show ?thesis
      proof (cases "q = []")
        case True
        with n(2) have "n = y" by simp
        with Cons.prems(3) px ne True show ?thesis
          using cursor_walk_leaf [of n p'] by auto
      next
        case False
        with n(2) have comp: "is_composite n"
          using cursor_walk_leaf by fastforce
        from Cons.prems(1) n(1) False comp obtain n' where
          n': "set_loop v n q = Inr n'" and m': "cursor_step m' a = Inr n'"
          by (cases a; cases m) (auto simp: update_conv' split: if_splits option.splits sum.splits)
        from Cons.IH [OF n'(1) n(2) Cons.prems(3) px Cons.prems(5) ne]
        show ?thesis using Cons True m' by simp
      qed
    qed
  qed
qed

lemmas path_eval =
  set_path_def path_parts_def classify_def MatchString_digits_def is_digit_def
  digit_val_def Atoi_def ParseInt_def ParseUint_def

text \<open>
  A segment becomes an index exactly when it contains a digit somewhere, which is
  what the unanchored pattern tests.
\<close>

lemma classify_index_iff: "(\<exists>i. classify p = PInt i) \<longleftrightarrow> (\<exists>c\<in>set p. is_digit c)"
  by (auto simp: classify_def MatchString_digits_def list_ex_iff)

text \<open>
  On a plain segment the code decides as the rule does: it makes the segment an
  index exactly when the segment consists of digits only.
\<close>

lemma classify_plain_segment:
  "plain_segment p \<Longrightarrow> (\<exists>i. classify p = PInt i) \<longleftrightarrow> all_digits p"
  by (cases p) (auto simp: plain_segment_def all_digits_def classify_def MatchString_digits_def
                      list_ex_iff list_all_iff)

text \<open>
  More than that: on a plain path \<^verbatim>\<open>set\<close> makes the very parts that the rule of the
  specification makes. \<^verbatim>\<open>Atoi\<close> gives the number that the digits write when it
  fits into an \<^verbatim>\<open>int\<close>.
\<close>

lemma decimal_ge: "n \<le> decimal n cs"
proof (induction cs arbitrary: n)
  case Nil
  then show ?case by simp
next
  case (Cons c cs)
  have "n \<le> n * 10 + digit_val c" by simp
  also have "\<dots> \<le> decimal (n * 10 + digit_val c) cs" by (rule Cons.IH)
  finally show ?case by simp
qed

lemma ParseUint_loop_digits:
  "list_all is_digit cs \<Longrightarrow> decimal n cs < 2 ^ 64 \<Longrightarrow>
   ParseUint_loop n cs = (decimal n cs, None)"
proof (induction cs arbitrary: n)
  case Nil
  then show ?case by simp
next
  case (Cons c cs)
  let ?n1 = "n * 10 + digit_val c"
  from Cons.prems(2) have fits: "decimal ?n1 cs < 2 ^ 64" by simp
  with decimal_ge [of ?n1 cs] have n1: "?n1 < 2 ^ 64" by simp
  then have n: "n < (2 ^ 64 - 1) div 10 + 1" by simp
  from Cons.prems(1) have c: "is_digit c" and cs: "list_all is_digit cs" by simp_all
  from Cons.IH [OF cs fits] c n n1 show ?case
    by (simp add: Let_def)
qed

lemma Atoi_digits:
  assumes "all_digits p" and "decimal 0 p < 2 ^ 63"
  shows "Atoi p = (int (decimal 0 p), None)"
proof -
  from assms(1) obtain c cs where p: "p = c # cs" and c: "is_digit c"
    and all: "list_all is_digit p"
    by (cases p) (auto simp: all_digits_def)
  from c have sign: "c \<noteq> CHR ''+''" "c \<noteq> CHR ''-''"
    by (auto simp: is_digit_def)
  from assms(2) have "decimal 0 p < 2 ^ 64" by simp
  from ParseUint_loop_digits [OF all this] p
  have "ParseUint p = (decimal 0 p, None)"
    by (simp add: ParseUint_def)
  with p sign assms(2) show ?thesis
    by (simp add: Atoi_def ParseInt_def)
qed

lemma classify_plain: "plain_segment p \<Longrightarrow> classify p = spec_classify p"
proof -
  assume "plain_segment p"
  then consider "all_digits p" "decimal 0 p < 2 ^ 63" | "\<not> list_ex is_digit p"
    by (auto simp: plain_segment_def)
  then show ?thesis
  proof cases
    case 1
    from 1(1) have "list_ex is_digit p"
      by (cases p) (auto simp: all_digits_def)
    with 1 show ?thesis
      by (simp add: classify_def spec_classify_def MatchString_digits_def Atoi_digits)
  next
    case 2
    then have "\<not> all_digits p"
      by (cases p) (auto simp: all_digits_def list_ex_iff list_all_iff)
    with 2 show ?thesis
      by (simp add: classify_def spec_classify_def MatchString_digits_def)
  qed
qed

lemma path_parts_plain: "plain_path path \<Longrightarrow> path_parts path = spec_parts path"
  by (simp add: plain_path_def path_parts_def spec_parts_def list_all_iff classify_plain)

lemmas spec_eval = spec_parts_def spec_classify_def all_digits_def is_digit_def digit_val_def
  plain_path_def plain_segment_def

text \<open>
  C1, at an input where the code departs from it: the segment \<open>file1\<close> does not
  consist of digits only, yet \<^verbatim>\<open>set\<close> makes it the index 0, because the pattern
  finds the digit inside it and the failed conversion leaves 0. The splice into
  the object that has the key \<open>file1\<close> then panics on the type assertion to a slice.
\<close>

theorem set_digit_inside_segment:
  "classify ''file1'' = PInt 0 \<and>
   path_parts ''variables.file1'' = [PString ''variables'', PInt 0] \<and>
   set_path v (JObject [(''variables'', JObject [(''file1'', JNull)])]) ''variables.file1''
     = Inl PanicTypeAssertion"
  by (simp add: path_eval)

text \<open>
  C2: the path \<open>a.0.b\<close> becomes the parts key \<open>a\<close>, index 0, key \<open>b\<close>, and splicing a
  value at it into the tree \<^verbatim>\<open>{"a": [{"b": null}]}\<close> puts the value into the field
  \<open>b\<close> of the first element of the array.
\<close>

theorem set_a_0_b:
  "path_parts ''a.0.b'' = [PString ''a'', PInt 0, PString ''b''] \<and>
   set_path v (JObject [(''a'', JArray [JObject [(''b'', JNull)]])]) ''a.0.b''
     = Inr (JObject [(''a'', JArray [JObject [(''b'', v)]])])"
  by (simp add: path_eval)

lemma set_loop_off_path:
  "set_loop v m q = Inr m' \<Longrightarrow> cursor_walk m p = Inr x \<Longrightarrow> \<not> is_composite x \<Longrightarrow>
   \<not> prefix q p \<Longrightarrow> cursor_walk m' p = Inr x"
proof (induction q arbitrary: m m' p)
  case Nil
  then show ?case by simp
next
  case (Cons a q)
  show ?case
  proof (cases p)
    case Nil
    with Cons.prems show ?thesis
      using set_loop_leaf [of m "a # q" v] by auto
  next
    case (Cons b p')
    show ?thesis
    proof (cases "a = b")
      case False
      with Cons.prems(1,2) Cons show ?thesis
        by (cases a; cases b; cases m)
           (auto simp: update_conv' set_loop_leaf split: if_splits option.splits sum.splits)
    next
      case True
      from Cons.prems(2) Cons True obtain n where
        n: "cursor_step m a = Inr n" "cursor_walk n p' = Inr x"
        by (auto split: sum.splits)
      from Cons.prems(4) Cons True have np: "\<not> prefix q p'" by simp
      then have ne: "q \<noteq> []" by auto
      have comp: "is_composite n"
      proof (rule ccontr)
        assume "\<not> is_composite n"
        from set_loop_leaf [OF this ne, of v] Cons.prems(1) n(1) ne show False
          by (cases a; cases m) (auto split: if_splits option.splits sum.splits)
      qed
      from Cons.prems(1) n(1) ne comp obtain n' where
        n': "set_loop v n q = Inr n'" and m': "cursor_step m' a = Inr n'"
        by (cases a; cases m) (auto simp: update_conv' split: if_splits option.splits sum.splits)
      from Cons.IH [OF n' n(2) Cons.prems(3) np]
      show ?thesis using Cons True m' by simp
    qed
  qed
qed

text \<open>
  C9, at an input where the code departs from it: in the tree \<^verbatim>\<open>{"x": [{"y": null}]}\<close>
  the path \<open>x.a1.y\<close> has the parts key \<open>x\<close>, key \<open>a1\<close>, key \<open>y\<close>, since \<open>a1\<close> is not
  all digits, and its second part addresses the array under \<open>x\<close> with a key: the
  node does not match, and the splice has to fail. But \<^verbatim>\<open>set\<close> takes \<open>a1\<close> for the
  index 0, by the slip of C1, writes the value into the first element of the array
  and returns without a fault.
\<close>

theorem set_digit_key_on_array:
  "spec_parts ''x.a1.y'' = [PString ''x'', PString ''a1'', PString ''y''] \<and>
   cursor_walk (JObject [(''x'', JArray [JObject [(''y'', JNull)]])]) [PString ''x'']
     = Inr (JArray [JObject [(''y'', JNull)]]) \<and>
   \<not> fits (JArray [JObject [(''y'', JNull)]]) (PString ''a1'') \<and>
   path_parts ''x.a1.y'' = [PString ''x'', PInt 0, PString ''y''] \<and>
   set_path v (JObject [(''x'', JArray [JObject [(''y'', JNull)]])]) ''x.a1.y''
     = Inr (JObject [(''x'', JArray [JObject [(''y'', v)]])])"
  by (simp add: path_eval spec_eval)

text \<open>
  On a plain path, where \<^verbatim>\<open>set\<close> reads the segments as the specification does, a
  mismatch does make the splice fail: when walking the parts of the path reaches a
  node that does not match the next part, \<^verbatim>\<open>set\<close> panics.
\<close>

lemma set_path_mismatch_plain:
  assumes "plain_path path"
      and "spec_parts path = pre @ seg # post"
      and "cursor_walk m pre = Inr n"
      and "\<not> fits n seg"
  shows "\<exists>p. set_path v m path = Inl p"
proof -
  from assms(4) obtain p where "cursor_step n seg = Inl p"
    using cursor_step_fits by blast
  from set_loop_mismatch [OF assms(3) this] assms(1,2) show ?thesis
    by (auto simp: set_path_def path_parts_plain)
qed

section \<open>Properties of the splicing loop\<close>

lemma set_path_step:
  assumes "cursor_walk m (path_parts q) = Inr y" and "\<not> is_composite y"
  shows "\<exists>m'. set_path v m q = Inr m' \<and>
           (\<forall>p x. cursor_walk m p = Inr x \<and> \<not> is_composite x \<longrightarrow>
                  cursor_walk m' p = Inr (if p = path_parts q then v else x))"
proof -
  from set_loop_succeeds [OF assms(1) path_parts_nonempty]
  obtain m' where m': "set_loop v m (path_parts q) = Inr m'" by blast
  have "cursor_walk m' p = Inr (if p = path_parts q then v else x)"
    if "cursor_walk m p = Inr x" "\<not> is_composite x" for p x
  proof (cases "p = path_parts q")
    case True
    then show ?thesis
      using set_loop_reads_back [OF m' path_parts_nonempty] by simp
  next
    case False
    then show ?thesis
      using set_loop_elsewhere [OF m' assms(1,2) that] by simp
  qed
  with m' show ?thesis by (auto simp: set_path_def)
qed

lemma set_paths_leaves:
  assumes "\<forall>q\<in>set qs. \<exists>y. cursor_walk m (path_parts q) = Inr y \<and> \<not> is_composite y"
  shows "\<exists>m'. set_paths g m qs = Inr m' \<and>
           (\<forall>p x. cursor_walk m p = Inr x \<and> \<not> is_composite x \<longrightarrow>
                  cursor_walk m' p = Inr (if p \<in> path_parts ` set qs then JFile g else x))"
  using assms
proof (induction qs arbitrary: m)
  case Nil
  then show ?case by simp
next
  case (Cons q qs)
  then obtain y where y: "cursor_walk m (path_parts q) = Inr y" "\<not> is_composite y"
    by auto
  from set_path_step [OF y, of "JFile g"] obtain m1 where
    m1: "set_path (JFile g) m q = Inr m1" and
    keep: "\<And>p x. cursor_walk m p = Inr x \<Longrightarrow> \<not> is_composite x \<Longrightarrow>
             cursor_walk m1 p = Inr (if p = path_parts q then JFile g else x)"
    by blast
  have "\<forall>q'\<in>set qs. \<exists>y. cursor_walk m1 (path_parts q') = Inr y \<and> \<not> is_composite y"
  proof
    fix q' assume "q' \<in> set qs"
    with Cons.prems obtain z where z: "cursor_walk m (path_parts q') = Inr z" "\<not> is_composite z"
      by auto
    from keep [OF z] z(2)
    show "\<exists>y. cursor_walk m1 (path_parts q') = Inr y \<and> \<not> is_composite y"
      by auto
  qed
  from Cons.IH [OF this] obtain m2 where
    m2: "set_paths g m1 qs = Inr m2" and
    keep2: "\<And>p x. cursor_walk m1 p = Inr x \<Longrightarrow> \<not> is_composite x \<Longrightarrow>
              cursor_walk m2 p = Inr (if p \<in> path_parts ` set qs then JFile g else x)"
    by blast
  have "cursor_walk m2 p = Inr (if p \<in> path_parts ` set (q # qs) then JFile g else x)"
    if px: "cursor_walk m p = Inr x" "\<not> is_composite x" for p x
  proof -
    let ?x1 = "if p = path_parts q then JFile g else x"
    have "cursor_walk m1 p = Inr ?x1" using keep [OF px] .
    moreover have "\<not> is_composite ?x1" using px(2) by simp
    ultimately have "cursor_walk m2 p = Inr (if p \<in> path_parts ` set qs then JFile g else ?x1)"
      by (rule keep2)
    then show ?thesis by auto
  qed
  with m1 m2 show ?case by simp
qed

lemma set_uploads_leaves:
  assumes "\<forall>(g, qs)\<in>set us. \<forall>q\<in>set qs.
             \<exists>y. cursor_walk m (path_parts q) = Inr y \<and> \<not> is_composite y"
  shows "\<exists>m'. set_uploads m us = Inr m' \<and>
           (\<forall>p x. cursor_walk m p = Inr x \<and> \<not> is_composite x \<longrightarrow>
                  cursor_walk m' p = Inr (holds_after us p x))"
  using assms
proof (induction us arbitrary: m)
  case Nil
  then show ?case by simp
next
  case (Cons u us)
  obtain g qs where u: "u = (g, qs)" by (cases u)
  with Cons.prems have
    "\<forall>q\<in>set qs. \<exists>y. cursor_walk m (path_parts q) = Inr y \<and> \<not> is_composite y"
    by auto
  from set_paths_leaves [OF this, of g] obtain m1 where
    m1: "set_paths g m qs = Inr m1" and
    keep: "\<And>p x. cursor_walk m p = Inr x \<Longrightarrow> \<not> is_composite x \<Longrightarrow>
             cursor_walk m1 p = Inr (if p \<in> path_parts ` set qs then JFile g else x)"
    by blast
  have "\<forall>(g', qs')\<in>set us. \<forall>q\<in>set qs'.
          \<exists>y. cursor_walk m1 (path_parts q) = Inr y \<and> \<not> is_composite y"
  proof (clarify)
    fix g' qs' q assume "(g', qs') \<in> set us" "q \<in> set qs'"
    with Cons.prems obtain z where z: "cursor_walk m (path_parts q) = Inr z" "\<not> is_composite z"
      by fastforce
    from keep [OF z] z(2)
    show "\<exists>y. cursor_walk m1 (path_parts q) = Inr y \<and> \<not> is_composite y"
      by auto
  qed
  from Cons.IH [OF this] obtain m2 where
    m2: "set_uploads m1 us = Inr m2" and
    keep2: "\<And>p x. cursor_walk m1 p = Inr x \<Longrightarrow> \<not> is_composite x \<Longrightarrow>
              cursor_walk m2 p = Inr (holds_after us p x)"
    by blast
  have "cursor_walk m2 p = Inr (holds_after (u # us) p x)"
    if px: "cursor_walk m p = Inr x" "\<not> is_composite x" for p x
  proof -
    let ?x1 = "if p \<in> path_parts ` set qs then JFile g else x"
    have "cursor_walk m1 p = Inr ?x1" using keep [OF px] .
    moreover have "\<not> is_composite ?x1" using px(2) by simp
    ultimately have "cursor_walk m2 p = Inr (holds_after us p ?x1)"
      by (rule keep2)
    then show ?thesis by (simp add: u)
  qed
  with m1 m2 u show ?case by simp
qed

lemma holds_after_file:
  assumes "\<forall>(g, qs)\<in>set us. p \<in> path_parts ` set qs \<longrightarrow> g = f"
  shows "holds_after us p x =
           (if \<exists>(g, qs)\<in>set us. p \<in> path_parts ` set qs then JFile f else x)"
  using assms
proof (induction us arbitrary: x)
  case Nil
  then show ?case by simp
next
  case (Cons u us)
  obtain g qs where u: "u = (g, qs)" by (cases u)
  from Cons.prems have rest: "\<forall>(g, qs)\<in>set us. p \<in> path_parts ` set qs \<longrightarrow> g = f"
    by simp
  show ?case
    using Cons.IH [OF rest] Cons.prems by (auto simp: u)
qed

lemma set_paths_off_path:
  "set_paths g m qs = Inr m' \<Longrightarrow> cursor_walk m p = Inr x \<Longrightarrow> \<not> is_composite x \<Longrightarrow>
   \<forall>q\<in>set qs. \<not> prefix (path_parts q) p \<Longrightarrow> cursor_walk m' p = Inr x"
proof (induction qs arbitrary: m)
  case Nil
  then show ?case by simp
next
  case (Cons q qs)
  from Cons.prems(1) obtain m1 where
    m1: "set_loop (JFile g) m (path_parts q) = Inr m1" and rest: "set_paths g m1 qs = Inr m'"
    by (auto simp: set_path_def split: sum.splits)
  from Cons.prems(4) have "\<not> prefix (path_parts q) p" by simp
  from set_loop_off_path [OF m1 Cons.prems(2,3) this]
  have "cursor_walk m1 p = Inr x" .
  from Cons.IH [OF rest this Cons.prems(3)] Cons.prems(4) show ?case by simp
qed

lemma set_uploads_off_path:
  "set_uploads m us = Inr m' \<Longrightarrow> cursor_walk m p = Inr x \<Longrightarrow> \<not> is_composite x \<Longrightarrow>
   \<forall>(g, qs)\<in>set us. \<forall>q\<in>set qs. \<not> prefix (path_parts q) p \<Longrightarrow> cursor_walk m' p = Inr x"
proof (induction us arbitrary: m)
  case Nil
  then show ?case by simp
next
  case (Cons u us)
  obtain g qs where u: "u = (g, qs)" by (cases u)
  from Cons.prems(1) u obtain m1 where
    m1: "set_paths g m qs = Inr m1" and rest: "set_uploads m1 us = Inr m'"
    by (auto split: sum.splits)
  from Cons.prems(4) u have "\<forall>q\<in>set qs. \<not> prefix (path_parts q) p" by simp
  from set_paths_off_path [OF m1 Cons.prems(2,3) this]
  have "cursor_walk m1 p = Inr x" .
  from Cons.IH [OF rest this Cons.prems(3)] Cons.prems(4) show ?case by simp
qed

lemma set_paths_append:
  "set_paths file m (ps @ qs) =
     (case set_paths file m ps of Inl e \<Rightarrow> Inl e | Inr m' \<Rightarrow> set_paths file m' qs)"
  by (induction ps arbitrary: m) (auto split: sum.splits)

lemma set_uploads_append:
  "set_uploads m (us @ vs) =
     (case set_uploads m us of Inl e \<Rightarrow> Inl e | Inr m' \<Rightarrow> set_uploads m' vs)"
  by (induction us arbitrary: m) (auto split: sum.splits)

lemma set_paths_scalar:
  "\<not> is_composite v \<Longrightarrow>
   set_paths file v ps = (if ps = [] then Inr v else Inl PanicTypeAssertion)"
  by (cases ps) (simp_all add: set_path_def set_loop_leaf path_parts_nonempty)

lemma set_uploads_scalar:
  "\<not> is_composite v \<Longrightarrow>
   set_uploads v us = (if \<forall>(file, ps)\<in>set us. ps = [] then Inr v else Inl PanicTypeAssertion)"
  by (induction us) (auto simp: set_paths_scalar)

lemma update_member_same: "(k, v) \<in> set (AList.update k v al)"
  by (induction al) auto

lemma update_member_other: "k' \<noteq> k \<Longrightarrow> (k', v') \<in> set al \<Longrightarrow> (k', v') \<in> set (AList.update k v al)"
  by (induction al) auto

lemma update_member_cases: "(k', v') \<in> set (AList.update k v al) \<Longrightarrow> (k', v') = (k, v) \<or> (k', v') \<in> set al"
  by (induction al) (auto split: if_splits)

lemma collect_uploads_sound:
  "collect_uploads files um acc = Some uploads \<Longrightarrow> (g, qs) \<in> set uploads \<Longrightarrow>
   (g, qs) \<in> set acc \<or> (\<exists>key. (key, qs) \<in> set um \<and> map_of files key = Some g)"
proof (induction files um acc rule: collect_uploads.induct)
  case (1 files uploads)
  then show ?case by simp
next
  case (2 files key path rest acc)
  from "2.prems"(1) obtain f0 where f0: "map_of files key = Some f0"
    and rest: "collect_uploads files rest (AList.update f0 path acc) = Some uploads"
    by (auto split: option.splits)
  from "2.IH" [OF f0 rest "2.prems"(2)] f0 show ?case
    by (auto dest: update_member_cases)
qed

lemma collect_uploads_keeps:
  "collect_uploads files um acc = Some uploads \<Longrightarrow>
   (file, paths) \<in> set acc \<or> (\<exists>field. (field, paths) \<in> set um \<and> map_of files field = Some file) \<Longrightarrow>
   \<forall>(key, qs)\<in>set um. map_of files key = Some file \<longrightarrow> qs = paths \<Longrightarrow>
   (file, paths) \<in> set uploads"
proof (induction files um acc rule: collect_uploads.induct)
  case (1 files uploads)
  then show ?case by simp
next
  case (2 files key path rest acc)
  from "2.prems"(1) obtain f0 where f0: "map_of files key = Some f0"
    and rest: "collect_uploads files rest (AList.update f0 path acc) = Some uploads"
    by (auto split: option.splits)
  have "(file, paths) \<in> set (AList.update f0 path acc) \<or>
        (\<exists>field. (field, paths) \<in> set rest \<and> map_of files field = Some file)"
  proof (cases "f0 = file")
    case True
    with "2.prems"(3) f0 have "path = paths" by auto
    with True show ?thesis by (simp add: update_member_same)
  next
    case False
    with "2.prems"(2) f0 show ?thesis
      by (auto intro: update_member_other)
  qed
  moreover from "2.prems"(3) have "\<forall>(key, qs)\<in>set rest. map_of files key = Some file \<longrightarrow> qs = paths"
    by simp
  ultimately show ?case using "2.IH" [OF f0 rest] by blast
qed

lemma collect_uploads_missing:
  "collect_uploads files um acc = None \<longleftrightarrow> (\<exists>key\<in>fst ` set um. map_of files key = None)"
  by (induction files um acc rule: collect_uploads.induct) (auto split: option.splits)

lemma collect_uploads_distinct:
  "collect_uploads files um acc = Some uploads \<Longrightarrow> distinct (map fst acc) \<Longrightarrow>
   distinct (map fst uploads)"
  by (induction files um acc rule: collect_uploads.induct)
     (auto simp: distinct_update split: option.splits)

lemmas ex_eval =
  ex_file0_def ex_file1_def ex_files_def ex_map_def ex_tree_def ex_spliced_def
  ex_executor_def ex_handler_def ex_decoded_def ex_json_def ex_upload_maps_def
  ex_upload_map_def ex_library_def ex_request_def ex_context_def ex_json_header_def
  ex_put_def ex_empty_post_def ex_batch_post_def ex_bad_batch_post_def
  ex_number_batch_post_def ex_single_post_def ex_operations_text_def ex_multipart_def
  ex_missing_part_post_def ex_second_part_missing_post_def ex_null_operations_post_def
  ex_below_file_post_def

lemmas handler_eval =
  ServeHTTP_def decode_POST_def decode_multipart_def execute_def content_type_def
  values_get_def getRemoteIp_def request_context_def json_syntax_error_def errHandler_def
  http_Error_def Write_def WriteHeader_def header_set_def fresh_def call_Executor_def
  single_request_def batch_request_def zero_request_def element_request_def

text \<open>
  C3 as stated fails when two entries of the upload map name the same place. Both
  entries below send their file to two paths, the tree reads null at every path, and
  both name \<open>variables.a\<close>: whichever entry \<^verbatim>\<open>range\<close> visits first, the loop completes
  and the places of that entry end up with two different files, because the later
  splice overwrites the earlier one.
\<close>

theorem colliding_entries_overwrite:
  "collect_uploads ex_files ex_colliding_map [] =
     Some [(ex_file0, [''variables.a'', ''variables.b'']),
           (ex_file1, [''variables.a'', ''variables.list.0''])] \<and>
   ex_file0 \<noteq> ex_file1 \<and>
   cursor_walk ex_tree (path_parts ''variables.a'') = Inr JNull \<and>
   cursor_walk ex_tree (path_parts ''variables.b'') = Inr JNull \<and>
   cursor_walk ex_tree (path_parts ''variables.list.0'') = Inr JNull \<and>
   (\<exists>t. set_uploads ex_tree
           [(ex_file0, [''variables.a'', ''variables.b'']),
            (ex_file1, [''variables.a'', ''variables.list.0''])] = Inr t \<and>
        cursor_walk t (path_parts ''variables.a'') = Inr (JFile ex_file1) \<and>
        cursor_walk t (path_parts ''variables.b'') = Inr (JFile ex_file0)) \<and>
   (\<exists>t. set_uploads ex_tree
           [(ex_file1, [''variables.a'', ''variables.list.0'']),
            (ex_file0, [''variables.a'', ''variables.b''])] = Inr t \<and>
        cursor_walk t (path_parts ''variables.a'') = Inr (JFile ex_file0) \<and>
        cursor_walk t (path_parts ''variables.list.0'') = Inr (JFile ex_file1))"
  by (simp add: ex_colliding_map_def ex_files_def ex_file0_def ex_file1_def ex_tree_def path_eval)

text \<open>
  The fan-out on the parts that \<^verbatim>\<open>set\<close> makes of the paths, whatever their segments:
  when the tree reads null at the parts of each path of an entry and no other entry
  has a path whose parts lead to one of those places or above one, then after the
  loop has completed every path of the entry reads, by its parts, the file of the
  entry; and the loop completes when the tree reads null at the parts of every path
  of the map.
\<close>

lemma fan_out_by_parts:
  assumes collected: "collect_uploads files uploadsMap [] = Some uploads"
      and keys: "distinct (map fst uploadsMap)"
      and opened: "inj_on (map_of files) (fst ` set uploadsMap)"
      and entry: "(field, paths) \<in> set uploadsMap"
      and part: "map_of files field = Some file"
      and order: "mset visited = mset uploads"
      and nulls: "\<forall>p\<in>set paths. cursor_walk operations (path_parts p) = Inr JNull"
      and apart: "\<forall>(key, qs)\<in>set uploadsMap. key \<noteq> field \<longrightarrow>
                    (\<forall>q\<in>set qs. \<forall>p\<in>set paths. \<not> prefix (path_parts q) (path_parts p))"
  shows "(\<forall>operations'. set_uploads operations visited = Inr operations' \<longrightarrow>
            (\<forall>p\<in>set paths. cursor_walk operations' (path_parts p) = Inr (JFile file))) \<and>
         ((\<forall>(key, qs)\<in>set uploadsMap. \<forall>q\<in>set qs.
              cursor_walk operations (path_parts q) = Inr JNull) \<longrightarrow>
            (\<exists>operations'. set_uploads operations visited = Inr operations'))"
proof (intro conjI allI impI)
  have same: "set visited = set uploads"
    using order by (rule mset_eq_setD)
  have origin: "\<exists>key. (key, qs) \<in> set uploadsMap \<and> map_of files key = Some g"
    if "(g, qs) \<in> set visited" for g qs
    using collect_uploads_sound [OF collected] that same by auto
  {
    assume all_null: "\<forall>(key, qs)\<in>set uploadsMap. \<forall>q\<in>set qs.
                        cursor_walk operations (path_parts q) = Inr JNull"
    have "\<forall>(g, qs)\<in>set visited. \<forall>q\<in>set qs.
            \<exists>y. cursor_walk operations (path_parts q) = Inr y \<and> \<not> is_composite y"
    proof (clarify)
      fix g qs q assume "(g, qs) \<in> set visited" "q \<in> set qs"
      with origin all_null have "cursor_walk operations (path_parts q) = Inr JNull"
        by fastforce
      then show "\<exists>y. cursor_walk operations (path_parts q) = Inr y \<and> \<not> is_composite y"
        by simp
    qed
    from set_uploads_leaves [OF this]
    show "\<exists>operations'. set_uploads operations visited = Inr operations'"
      by blast
  }
  fix operations'
  assume completes: "set_uploads operations visited = Inr operations'"
  have own: "qs = paths" if "(key, qs) \<in> set uploadsMap" "map_of files key = Some file" for key qs
  proof -
    from that(1) entry have "key \<in> fst ` set uploadsMap" "field \<in> fst ` set uploadsMap"
      by force+
    moreover from that(2) part have "map_of files key = map_of files field"
      by simp
    ultimately have "key = field"
      using opened by (meson inj_onD)
    with keys that(1) entry show ?thesis
      by (meson eq_key_imp_eq_value)
  qed
  have "(file, paths) \<in> set uploads"
    using collect_uploads_keeps [OF collected] entry part own by blast
  with same have "(file, paths) \<in> set visited" by simp
  then obtain before after where split: "visited = before @ (file, paths) # after"
    by (auto dest: split_list)
  have "distinct (map fst uploads)"
    using collect_uploads_distinct [OF collected] by simp
  moreover have "mset (map fst visited) = mset (map fst uploads)"
    using order by (metis mset_map)
  ultimately have "distinct (map fst visited)"
    by (metis mset_eq_imp_distinct_iff)
  with split have others: "file \<notin> fst ` set before" "file \<notin> fst ` set after"
    by auto
  have off: "\<forall>(g, qs)\<in>set us. \<forall>q\<in>set qs. \<not> prefix (path_parts q) (path_parts p)"
    if us: "set us \<subseteq> set visited" "file \<notin> fst ` set us" and p: "p \<in> set paths" for us p
  proof (clarify)
    fix g qs q assume gq: "(g, qs) \<in> set us" and q: "q \<in> set qs"
      and pre: "prefix (path_parts q) (path_parts p)"
    from gq us(1) origin obtain key where
      key: "(key, qs) \<in> set uploadsMap" "map_of files key = Some g"
      by blast
    from gq us(2) have "g \<noteq> file" by force
    with key(2) part have "key \<noteq> field" by auto
    with apart key(1) q p have "\<not> prefix (path_parts q) (path_parts p)" by fastforce
    with pre show False by simp
  qed
  from completes split obtain m0 m1 where
    m0: "set_uploads operations before = Inr m0" and
    m1: "set_paths file m0 paths = Inr m1" and
    last: "set_uploads m1 after = Inr operations'"
    by (auto simp: set_uploads_append split: sum.splits)
  show "\<forall>p\<in>set paths. cursor_walk operations' (path_parts p) = Inr (JFile file)"
  proof
    fix p assume p: "p \<in> set paths"
    have start: "cursor_walk m0 (path_parts q) = Inr JNull" if "q \<in> set paths" for q
    proof -
      have "set before \<subseteq> set visited" using split by auto
      from off [OF this others(1) that] nulls that
      show ?thesis
        using set_uploads_off_path [OF m0, of "path_parts q" JNull] by simp
    qed
    then have "\<forall>q\<in>set paths. \<exists>y. cursor_walk m0 (path_parts q) = Inr y \<and> \<not> is_composite y"
      by simp
    from set_paths_leaves [OF this, of "file"] m1 start [OF p] p
    have "cursor_walk m1 (path_parts p) = Inr (JFile file)"
      by fastforce
    moreover have "set after \<subseteq> set visited" using split by auto
    ultimately show "cursor_walk operations' (path_parts p) = Inr (JFile file)"
      using set_uploads_off_path [OF last, of "path_parts p" "JFile file"]
            off [OF _ others(2) p]
      by simp
  qed
qed

text \<open>
  C3, amended: take an upload map all of whose paths are plain (every segment is
  all digits, an index that fits Go's \<^verbatim>\<open>int\<close>, or has no digit at all), and an entry
  of it that sends one file field to a list of paths, where the tree holds null at
  each path of the entry and no other entry names one of those places or a place
  above one. Then after the splicing loop has completed, in whatever order
  \<^verbatim>\<open>range\<close> visits the uploads, every one of those places holds the file of that
  entry: the collector keeps the whole list of paths and the loop splices at each
  of them. The loop does complete when the tree holds null at every path the map
  names. Paths are read by the rule of the specification. (The field names of a Go
  map are distinct, and \<^verbatim>\<open>r.FormFile\<close> opens a file of its own for each of them.)
\<close>

theorem upload_fan_out:
  assumes collected: "collect_uploads files uploadsMap [] = Some uploads"
      and keys: "distinct (map fst uploadsMap)"
      and opened: "inj_on (map_of files) (fst ` set uploadsMap)"
      and entry: "(field, paths) \<in> set uploadsMap"
      and part: "map_of files field = Some file"
      and order: "mset visited = mset uploads"
      and plain: "\<forall>(key, qs)\<in>set uploadsMap. \<forall>q\<in>set qs. plain_path q"
      and nulls: "\<forall>p\<in>set paths. cursor_walk operations (spec_parts p) = Inr JNull"
      and apart: "\<forall>(key, qs)\<in>set uploadsMap. key \<noteq> field \<longrightarrow>
                    (\<forall>q\<in>set qs. \<forall>p\<in>set paths. \<not> prefix (spec_parts q) (spec_parts p))"
  shows "(\<forall>operations'. set_uploads operations visited = Inr operations' \<longrightarrow>
            (\<forall>p\<in>set paths. cursor_walk operations' (spec_parts p) = Inr (JFile file))) \<and>
         ((\<forall>(key, qs)\<in>set uploadsMap. \<forall>q\<in>set qs.
              cursor_walk operations (spec_parts q) = Inr JNull) \<longrightarrow>
            (\<exists>operations'. set_uploads operations visited = Inr operations'))"
proof -
  have same: "path_parts q = spec_parts q" if "(key, qs) \<in> set uploadsMap" "q \<in> set qs" for key qs q
  proof -
    from plain that have "plain_path q" by fastforce
    then show ?thesis by (rule path_parts_plain)
  qed
  have own: "path_parts p = spec_parts p" if "p \<in> set paths" for p
    using same [OF entry that] .
  have nulls': "\<forall>p\<in>set paths. cursor_walk operations (path_parts p) = Inr JNull"
    using nulls own by simp
  have apart': "\<forall>(key, qs)\<in>set uploadsMap. key \<noteq> field \<longrightarrow>
                  (\<forall>q\<in>set qs. \<forall>p\<in>set paths. \<not> prefix (path_parts q) (path_parts p))"
  proof (clarify)
    fix key qs q p
    assume k: "(key, qs) \<in> set uploadsMap" "key \<noteq> field" and q: "q \<in> set qs"
      and p: "p \<in> set paths" and pre: "prefix (path_parts q) (path_parts p)"
    from apart k q p have "\<not> prefix (spec_parts q) (spec_parts p)" by fastforce
    with pre same [OF k(1) q] own [OF p] show False by simp
  qed
  have all: "(\<forall>(key, qs)\<in>set uploadsMap. \<forall>q\<in>set qs.
                cursor_walk operations (spec_parts q) = Inr JNull) \<longleftrightarrow>
             (\<forall>(key, qs)\<in>set uploadsMap. \<forall>q\<in>set qs.
                cursor_walk operations (path_parts q) = Inr JNull)"
    using same by fastforce
  from fan_out_by_parts [OF collected keys opened entry part order nulls' apart']
  show ?thesis
    unfolding all using own by simp
qed

theorem upload_fan_out_witness:
  "collect_uploads ex_files ex_map [] =
     Some [(ex_file0, [''variables.a'', ''variables.list.0'']), (ex_file1, [''variables.b''])] \<and>
   plain_path ''variables.a'' \<and> plain_path ''variables.list.0'' \<and> plain_path ''variables.b'' \<and>
   spec_parts ''variables.list.0'' = [PString ''variables'', PString ''list'', PInt 0] \<and>
   set_uploads ex_tree
     [(ex_file1, [''variables.b'']), (ex_file0, [''variables.a'', ''variables.list.0''])] =
     Inr ex_spliced \<and>
   cursor_walk ex_spliced (spec_parts ''variables.a'') = Inr (JFile ex_file0) \<and>
   cursor_walk ex_spliced (spec_parts ''variables.list.0'') = Inr (JFile ex_file0)"
proof -
  let ?paths = "[''variables.a'', ''variables.list.0'']"
  let ?uploads = "[(ex_file0, ?paths), (ex_file1, [''variables.b''])]"
  let ?visited = "[(ex_file1, [''variables.b'']), (ex_file0, ?paths)]"
  have collected: "collect_uploads ex_files ex_map [] = Some ?uploads"
    by (simp add: ex_files_def ex_map_def ex_file0_def ex_file1_def)
  have keys: "distinct (map fst ex_map)"
    by (simp add: ex_map_def)
  have opened: "inj_on (map_of ex_files) (fst ` set ex_map)"
    by (simp add: ex_files_def ex_map_def ex_file0_def ex_file1_def)
  have entry: "(''0'', ?paths) \<in> set ex_map"
    by (simp add: ex_map_def)
  have part: "map_of ex_files ''0'' = Some ex_file0"
    by (simp add: ex_files_def)
  have order: "mset ?visited = mset ?uploads"
    by simp
  have pl: "plain_path ''variables.a''" "plain_path ''variables.list.0''" "plain_path ''variables.b''"
    by (simp_all add: spec_eval)
  then have plain: "\<forall>(key, qs)\<in>set ex_map. \<forall>q\<in>set qs. plain_path q"
    by (simp add: ex_map_def)
  have sp: "spec_parts ''variables.a'' = [PString ''variables'', PString ''a'']"
    "spec_parts ''variables.list.0'' = [PString ''variables'', PString ''list'', PInt 0]"
    "spec_parts ''variables.b'' = [PString ''variables'', PString ''b'']"
    by (simp_all add: spec_eval)
  have nulls: "\<forall>p\<in>set ?paths. cursor_walk ex_tree (spec_parts p) = Inr JNull"
    by (simp add: ex_tree_def sp)
  have apart: "\<forall>(key, qs)\<in>set ex_map. key \<noteq> ''0'' \<longrightarrow>
                 (\<forall>q\<in>set qs. \<forall>p\<in>set ?paths. \<not> prefix (spec_parts q) (spec_parts p))"
    by (simp add: ex_map_def sp)
  have run: "set_uploads ex_tree ?visited = Inr ex_spliced"
    by (simp add: ex_tree_def ex_spliced_def path_eval)
  from upload_fan_out [OF collected keys opened entry part order plain nulls apart] run
  have "\<forall>p\<in>set ?paths. cursor_walk ex_spliced (spec_parts p) = Inr (JFile ex_file0)"
    by blast
  with collected run pl sp(2) show ?thesis by simp
qed

section \<open>Properties of the handler\<close>

lemma decode_POST_any_state:
  "decode_POST lib h r st = Inr operations \<Longrightarrow> decode_POST lib h r st' = Inr operations"
  by (auto simp: decode_POST_def decode_multipart_def json_syntax_error_def Let_def
           split: if_splits sum.splits option.splits)

lemma ServeHTTP_POST:
  "Method r = ''POST'' \<Longrightarrow>
   ServeHTTP lib h r st0 =
     (case decode_POST lib h r
             (st0\<lparr>W := header_set ''Content-Type'' ''application/json; charset=utf-8'' (W st0)\<rparr>) of
        Inl ended \<Rightarrow> ended
      | Inr operations \<Rightarrow>
          execute lib h r (getRemoteIp lib r) operations
            (st0\<lparr>W := header_set ''Content-Type'' ''application/json; charset=utf-8'' (W st0)\<rparr>))"
  by (simp add: ServeHTTP_def Let_def)

lemma ServeHTTP_decoded:
  assumes "Method r = ''POST''" and "decode_POST lib h r st = Inr operations"
  shows "ServeHTTP lib h r st0 =
           execute lib h r (getRemoteIp lib r) operations
             (st0\<lparr>W := header_set ''Content-Type'' ''application/json; charset=utf-8'' (W st0)\<rparr>)"
  using decode_POST_any_state [OF assms(2)] assms(1) by (simp add: ServeHTTP_POST)

lemma decode_POST_body:
  "content_type r = ''text/plain'' \<or> content_type r = ''application/json'' \<Longrightarrow>
   decode_POST lib h r st =
     (if ContentLength r > 0
      then (case Decode lib (Body r) of
              Inl err \<Rightarrow> Inl (json_syntax_error st)
            | Inr operations \<Rightarrow> Inr operations)
      else Inr JNull)"
  by (auto simp: decode_POST_def)

lemma decode_POST_other:
  "content_type r \<noteq> ''text/plain'' \<Longrightarrow> content_type r \<noteq> ''application/json'' \<Longrightarrow>
   content_type r \<noteq> ''multipart/form-data'' \<Longrightarrow> decode_POST lib h r st = Inr JNull"
  by (simp add: decode_POST_def)

lemma errHandler_parse:
  "err \<noteq> Some OtherError \<Longrightarrow> (case err of None \<Rightarrow> None | Some e \<Rightarrow> errHandler e) = None"
  by (cases err) (auto simp: errHandler_def intro: go_error.exhaust)

text \<open>
  C10: for a request whose method is neither GET nor POST the handler only sets the
  JSON content type and returns: no status is written (the server then sends 200),
  no body is written and the executor is not called.
\<close>

theorem other_method_no_response:
  assumes "Method r \<noteq> ''GET''" and "Method r \<noteq> ''POST''"
  shows "ServeHTTP lib h r st0 =
           (Returned, st0\<lparr>W := header_set ''Content-Type'' ''application/json; charset=utf-8'' (W st0)\<rparr>) \<and>
         ServeHTTP lib h r (fresh es) =
           (Returned,
            \<lparr>W = \<lparr>WHeader = [(''Content-Type'', ''application/json; charset=utf-8'')],
                   Status = None, Written = []\<rparr>,
             Calls = [], ExecState = es\<rparr>)"
  using assms by (simp add: ServeHTTP_def fresh_def header_set_def)

theorem other_method_no_response_witness:
  "Method ex_put = ''PUT'' \<and>
   ServeHTTP ex_library ex_handler ex_put (fresh 0) =
     (Returned,
      \<lparr>W = \<lparr>WHeader = ex_json_header, Status = None, Written = []\<rparr>,
       Calls = [], ExecState = 0\<rparr>)"
proof -
  have m: "Method ex_put \<noteq> ''GET''" "Method ex_put \<noteq> ''POST''" "Method ex_put = ''PUT''"
    by (simp_all add: ex_put_def ex_request_def)
  from other_method_no_response [OF m(1,2), of ex_library ex_handler "fresh 0" 0] m(3)
  show ?thesis by (simp add: ex_json_header_def fresh_def header_set_def)
qed

text \<open>
  C8 as stated fails: a multipart POST whose operations decode to null and whose
  upload map names a path is not answered with status 400; the first splice panics
  on its type assertion before the shape of the value is looked at.
\<close>

theorem null_operations_splice_panics:
  "Method ex_null_operations_post = ''POST'' \<and>
   Unmarshal ex_library (values_get (Form ex_null_operations_post) ''operations'') = Inr JNull \<and>
   ServeHTTP ex_library ex_handler ex_null_operations_post (fresh 0) =
     (Panicked PanicTypeAssertion,
      \<lparr>W = \<lparr>WHeader = ex_json_header, Status = None, Written = []\<rparr>,
       Calls = [], ExecState = 0\<rparr>)"
  by (simp add: ex_eval handler_eval path_eval)

text \<open>
  C8, amended: for every POST request whose decoding leaves in \<^verbatim>\<open>operations\<close> a
  value that is neither an object nor an array, without having ended the call, the
  handler writes status 400 and no body and does not call the executor. Such a
  value is left by a body of type \<open>text/plain\<close> or \<open>application/json\<close> that decodes
  to it, by a body whose length is not positive and by a content type the handler
  has no case for, which both leave nil, and by a multipart request with such an
  operations value and no path to splice.
\<close>

theorem unsupported_shape_400:
  assumes "Method r = ''POST''"
      and "decode_POST lib h r st = Inr operations"
      and "\<not> is_composite operations"
  shows "ServeHTTP lib h r st0 =
           (Returned,
            st0\<lparr>W := WriteHeader 400
                        (header_set ''Content-Type'' ''application/json; charset=utf-8'' (W st0))\<rparr>)"
  using assms(3) unfolding ServeHTTP_decoded [OF assms(1,2)]
  by (cases operations) (simp_all add: execute_def)

theorem unsupported_shape_400_witness:
  "Method ex_empty_post = ''POST'' \<and>
   decode_POST ex_library ex_handler ex_empty_post (fresh 0) = Inr JNull \<and>
   ServeHTTP ex_library ex_handler ex_empty_post (fresh 0) =
     (Returned,
      \<lparr>W = \<lparr>WHeader = ex_json_header, Status = Some 400, Written = []\<rparr>,
       Calls = [], ExecState = 0\<rparr>)"
proof -
  have m: "Method ex_empty_post = ''POST''"
    by (simp add: ex_empty_post_def ex_request_def)
  have d: "decode_POST ex_library ex_handler ex_empty_post (fresh 0) = Inr JNull"
    by (simp add: ex_empty_post_def ex_request_def decode_POST_def content_type_def values_get_def)
  have s: "\<not> is_composite JNull" by simp
  from unsupported_shape_400 [OF m d s, of "fresh 0"] m d
  show ?thesis by (simp add: ex_json_header_def fresh_def header_set_def WriteHeader_def)
qed

lemma single_request_fields:
  "OperationName (single_request data) =
     (case map_of data ''operationName'' of Some (JString tmp) \<Rightarrow> tmp | _ \<Rightarrow> [])"
  "Query (single_request data) =
     (case map_of data ''query'' of Some (JString tmp) \<Rightarrow> tmp | _ \<Rightarrow> [])"
  "Variables (single_request data) =
     (case map_of data ''variables'' of Some (JObject tmp) \<Rightarrow> Some tmp | _ \<Rightarrow> None)"
  by (auto simp: single_request_def zero_request_def Let_def split: option.splits json.splits)

text \<open>
  C6: when the POST branch has decoded a single object, the executor is called once,
  with a request whose operation name and query are the strings under
  \<open>operationName\<close> and \<open>query\<close>, or empty when the key is absent or its value is not a
  string, and whose variables are the map under \<open>variables\<close>, or the nil map, which
  has no entries, when the key is absent or its value is not a map.
\<close>

theorem single_object_request:
  assumes "Method r = ''POST''"
      and "decode_POST lib h r st = Inr (JObject data)"
  shows "\<exists>rq. Calls (snd (ServeHTTP lib h r st0)) = Calls st0 @ [rq] \<and>
           OperationName rq =
             (case map_of data ''operationName'' of Some (JString tmp) \<Rightarrow> tmp | _ \<Rightarrow> []) \<and>
           Query rq =
             (case map_of data ''query'' of Some (JString tmp) \<Rightarrow> tmp | _ \<Rightarrow> []) \<and>
           Variables rq =
             (case map_of data ''variables'' of Some (JObject tmp) \<Rightarrow> Some tmp | _ \<Rightarrow> None) \<and>
           entries (Variables rq) =
             (case map_of data ''variables'' of Some (JObject tmp) \<Rightarrow> tmp | _ \<Rightarrow> [])"
proof -
  let ?rq = "(single_request data)\<lparr>Context := request_context r (getRemoteIp lib r)\<rparr>"
  have "Calls (snd (ServeHTTP lib h r st0)) = Calls st0 @ [?rq]"
    unfolding ServeHTTP_decoded [OF assms]
    by (simp add: execute_def call_Executor_def json_syntax_error_def Let_def
             split: prod.splits option.splits)
  moreover have "entries (Variables ?rq) =
      (case map_of data ''variables'' of Some (JObject tmp) \<Rightarrow> tmp | _ \<Rightarrow> [])"
    by (simp add: single_request_fields entries_def split: option.splits json.splits)
  ultimately show ?thesis
    by (intro exI [of _ ?rq]) (simp add: single_request_fields)
qed

theorem single_object_request_witness:
  "Method ex_single_post = ''POST'' \<and>
   decode_POST ex_library ex_handler ex_single_post (fresh 0) =
     Inr (JObject [(''query'', JString ''q''), (''variables'', JString ''x'')]) \<and>
   (\<exists>rq. Calls (snd (ServeHTTP ex_library ex_handler ex_single_post (fresh 0))) = [rq] \<and>
      OperationName rq = [] \<and> Query rq = ''q'' \<and> Variables rq = None \<and>
      entries (Variables rq) = [])"
proof -
  have m: "Method ex_single_post = ''POST''"
    by (simp add: ex_single_post_def ex_request_def)
  have d: "decode_POST ex_library ex_handler ex_single_post (fresh 0) =
             Inr (JObject [(''query'', JString ''q''), (''variables'', JString ''x'')])"
    by (simp add: ex_single_post_def ex_request_def decode_POST_def content_type_def
             values_get_def ex_library_def ex_json_def ex_decoded_def)
  from single_object_request [OF m d, of "fresh 0"] m d
  show ?thesis by (simp add: fresh_def)
qed

lemma batch_loop_objects:
  assumes "list_all is_object data"
      and "index + length data \<le> length result"
      and "sequential_results h (map (element_request ctx) data) (ExecState st) = (results, es)"
  shows "batch_loop h ctx data index result st =
           (None,
            take index result @ map Some results @ drop (index + length data) result,
            st\<lparr>Calls := Calls st @ map (element_request ctx) data, ExecState := es\<rparr>)"
  using assms
proof (induction data arbitrary: index result st results es)
  case Nil
  then show ?case by auto
next
  case (Cons operation rest)
  from Cons.prems(1) obtain kvs where op: "operation = JObject kvs" and rest: "list_all is_object rest"
    by (cases operation) auto
  let ?rq = "element_request ctx operation"
  obtain res es1 where ex: "Executor h ?rq (ExecState st) = (res, es1)"
    by (cases "Executor h ?rq (ExecState st)")
  obtain ress es2 where seq: "sequential_results h (map (element_request ctx) rest) es1 = (ress, es2)"
    by (cases "sequential_results h (map (element_request ctx) rest) es1")
  from Cons.prems(3) ex seq have results: "results = res # ress" and es: "es = es2"
    by simp_all
  let ?st1 = "st\<lparr>Calls := Calls st @ [?rq], ExecState := es1\<rparr>"
  have len: "Suc index + length rest \<le> length (result[index := Some res])"
    using Cons.prems(2) by simp
  have seq1: "sequential_results h (map (element_request ctx) rest) (ExecState ?st1) = (ress, es2)"
    using seq by simp
  have step: "batch_loop h ctx (operation # rest) index result st =
              batch_loop h ctx rest (Suc index) (result[index := Some res]) ?st1"
    using ex by (simp add: op element_request_def call_Executor_def)
  have lt: "index < length result" using Cons.prems(2) by simp
  have "take (Suc index) (result[index := Some res]) = take index result @ [Some res]"
    using lt by (simp add: take_Suc_conv_app_nth)
  moreover have "drop (Suc index + length rest) (result[index := Some res]) =
                 drop (index + length (operation # rest)) result"
    by simp
  ultimately show ?case
    unfolding step Cons.IH [OF rest len seq1]
    by (simp add: results es)
qed

lemma sequential_results_length:
  "sequential_results h rqs es = (results, es') \<Longrightarrow> length results = length rqs"
  by (induction rqs arbitrary: es results) (auto split: prod.splits)

text \<open>
  C5: when the POST branch has decoded an array of \<open>N\<close> objects, the executor is
  called once for each element, in the order of the array, each call in the state
  the call before has left, with the request built from that element; there are
  \<open>N\<close> results, and when the encoder accepts them the response is status 200 with
  the encoded slice of the \<open>N\<close> results in that order.
\<close>

theorem batch_in_order:
  assumes "Method r = ''POST''"
      and "decode_POST lib h r st = Inr (JArray data)"
      and "list_all is_object data"
      and "sequential_results h
             (map (element_request (request_context r (getRemoteIp lib r))) data)
             (ExecState st0) = (results, es)"
  shows "Calls (snd (ServeHTTP lib h r st0)) =
           Calls st0 @ map (element_request (request_context r (getRemoteIp lib r))) data \<and>
         ExecState (snd (ServeHTTP lib h r st0)) = es \<and>
         length results = length data \<and>
         (Encode lib (Batch (map Some results)) = None \<longrightarrow>
            ServeHTTP lib h r st0 =
              (Returned,
               st0\<lparr>W := Write (Json (Batch (map Some results)))
                           (header_set ''Content-Type'' ''application/json; charset=utf-8'' (W st0)),
                   Calls := Calls st0 @
                            map (element_request (request_context r (getRemoteIp lib r))) data,
                   ExecState := es\<rparr>))"
proof -
  let ?st = "st0\<lparr>W := header_set ''Content-Type'' ''application/json; charset=utf-8'' (W st0)\<rparr>"
  have len: "length results = length data"
    using sequential_results_length [OF assms(4)] by simp
  have loop: "batch_loop h (request_context r (getRemoteIp lib r)) data 0
          (replicate (length data) None) ?st =
        (None, map Some results,
         ?st\<lparr>Calls := Calls ?st @ map (element_request (request_context r (getRemoteIp lib r))) data,
              ExecState := es\<rparr>)"
    using batch_loop_objects [OF assms(3), of 0 "replicate (length data) None" h
            "request_context r (getRemoteIp lib r)" ?st results es] assms(4)
    by simp
  show ?thesis
    unfolding ServeHTTP_decoded [OF assms(1,2)]
    using len by (simp add: execute_def loop split: option.splits)
qed

theorem batch_in_order_witness:
  "Method ex_batch_post = ''POST'' \<and>
   decode_POST ex_library ex_handler ex_batch_post (fresh 0) =
     Inr (JArray [JObject [(''query'', JString ''a'')], JObject [(''query'', JString ''b'')]]) \<and>
   ServeHTTP ex_library ex_handler ex_batch_post (fresh 0) =
     (Returned,
      \<lparr>W = \<lparr>WHeader = ex_json_header, Status = Some 200,
             Written = [Json (Batch [Some (0, ''a''), Some (1, ''b'')])]\<rparr>,
       Calls = [\<lparr>OperationName = [], Query = ''a'', Variables = None,
                  Context = ex_context ''application/json; charset=utf-8''\<rparr>,
                \<lparr>OperationName = [], Query = ''b'', Variables = None,
                  Context = ex_context ''application/json; charset=utf-8''\<rparr>],
       ExecState = 2\<rparr>)"
proof -
  let ?data = "[JObject [(''query'', JString ''a'')], JObject [(''query'', JString ''b'')]]"
  let ?ctx = "request_context ex_batch_post (getRemoteIp ex_library ex_batch_post)"
  have m: "Method ex_batch_post = ''POST''"
    by (simp add: ex_batch_post_def ex_request_def)
  have d: "decode_POST ex_library ex_handler ex_batch_post (fresh 0) = Inr (JArray ?data)"
    by (simp add: ex_batch_post_def ex_request_def decode_POST_def content_type_def
             values_get_def ex_library_def ex_json_def ex_decoded_def)
  have objects: "list_all is_object ?data" by simp
  have ctx: "?ctx = ex_context ''application/json; charset=utf-8''"
    by (simp add: ex_batch_post_def ex_request_def request_context_def getRemoteIp_def
             values_get_def ex_library_def ex_context_def)
  have run: "sequential_results ex_handler (map (element_request ?ctx) ?data)
               (ExecState (fresh 0 :: (nat \<times> string, nat) state)) = ([(0, ''a''), (1, ''b'')], 2)"
    by (simp add: ex_handler_def ex_executor_def element_request_def batch_request_def
             zero_request_def fresh_def numeral_2_eq_2)
  have enc: "Encode ex_library (Batch (map Some [(0, ''a''), (1, ''b'')])) = None"
    by (simp add: ex_library_def)
  from batch_in_order [OF m d objects run] enc m d
  show ?thesis
    unfolding ctx
    by (simp add: ex_json_header_def fresh_def header_set_def Write_def WriteHeader_def
             element_request_def batch_request_def zero_request_def)
qed

lemma batch_loop_append:
  assumes "list_all is_object pre"
      and "sequential_results h (map (element_request ctx) pre) (ExecState st) = (results, es)"
  shows "\<exists>result'. batch_loop h ctx (pre @ later) index result st =
           batch_loop h ctx later (index + length pre) result'
             (st\<lparr>Calls := Calls st @ map (element_request ctx) pre, ExecState := es\<rparr>)"
  using assms
proof (induction pre arbitrary: index result st results es)
  case Nil
  then show ?case by auto
next
  case (Cons operation rest)
  from Cons.prems(1) obtain kvs where op: "operation = JObject kvs" and rest: "list_all is_object rest"
    by (cases operation) auto
  let ?rq = "element_request ctx operation"
  obtain res es1 where ex: "Executor h ?rq (ExecState st) = (res, es1)"
    by (cases "Executor h ?rq (ExecState st)")
  obtain ress es2 where seq: "sequential_results h (map (element_request ctx) rest) es1 = (ress, es2)"
    by (cases "sequential_results h (map (element_request ctx) rest) es1")
  from Cons.prems(2) ex seq have results: "results = res # ress" and es: "es = es2"
    by simp_all
  let ?st1 = "st\<lparr>Calls := Calls st @ [?rq], ExecState := es1\<rparr>"
  have seq1: "sequential_results h (map (element_request ctx) rest) (ExecState ?st1) = (ress, es2)"
    using seq by simp
  have step: "batch_loop h ctx ((operation # rest) @ later) index result st =
              batch_loop h ctx (rest @ later) (Suc index) (result[index := Some res]) ?st1"
    using ex by (simp add: op element_request_def call_Executor_def)
  from Cons.IH [OF rest seq1, of "Suc index" "result[index := Some res]"]
  show ?case
    unfolding step by (simp add: es)
qed

text \<open>
  C7, at an input where the code departs from it: the batch \<^verbatim>\<open>[1]\<close> has an element
  that is not an object, and the request is to be answered with status 400. But
  the type assertion on the element, the one unguarded assertion of the loop,
  panics: the handler ends by the panic and no status and no body is written.
\<close>

theorem batch_element_number_panics:
  "Method ex_number_batch_post = ''POST'' \<and>
   Decode ex_library (Body ex_number_batch_post) = Inr (JArray [JNumber 0x3FF0000000000000]) \<and>
   ServeHTTP ex_library ex_handler ex_number_batch_post (fresh 0) =
     (Panicked PanicTypeAssertion,
      \<lparr>W = \<lparr>WHeader = ex_json_header, Status = None, Written = []\<rparr>,
       Calls = [], ExecState = 0\<rparr>)"
  by (simp add: ex_eval handler_eval)

text \<open>
  The same for every batch: with an element that is not an object, the handler
  panics on the type assertion at the first such element, after it has called the
  executor, in order, for the elements before it; it calls the executor neither for
  that element nor for a later one, and writes no status and no body.
\<close>

lemma batch_element_not_object:
  assumes "Method r = ''POST''"
      and "decode_POST lib h r st = Inr (JArray (pre @ bad # post))"
      and "list_all is_object pre"
      and "\<not> is_object bad"
      and "sequential_results h
             (map (element_request (request_context r (getRemoteIp lib r))) pre)
             (ExecState st0) = (results, es)"
  shows "ServeHTTP lib h r st0 =
           (Panicked PanicTypeAssertion,
            st0\<lparr>W := header_set ''Content-Type'' ''application/json; charset=utf-8'' (W st0),
                Calls := Calls st0 @
                         map (element_request (request_context r (getRemoteIp lib r))) pre,
                ExecState := es\<rparr>)"
proof -
  let ?st = "st0\<lparr>W := header_set ''Content-Type'' ''application/json; charset=utf-8'' (W st0)\<rparr>"
  have bad: "batch_loop h ctx (bad # post) index result st' = (Some PanicTypeAssertion, result, st')"
    for ctx index result and st' :: "('a, 'b) state"
    using assms(4) by (cases bad) simp_all
  have seq: "sequential_results h
               (map (element_request (request_context r (getRemoteIp lib r))) pre)
               (ExecState ?st) = (results, es)"
    using assms(5) by simp
  from batch_loop_append [OF assms(3) seq, of "bad # post" 0 "replicate (length (pre @ bad # post)) None"]
  obtain result' where
    "batch_loop h (request_context r (getRemoteIp lib r)) (pre @ bad # post) 0
       (replicate (length (pre @ bad # post)) None) ?st =
     (Some PanicTypeAssertion, result',
      ?st\<lparr>Calls := Calls ?st @ map (element_request (request_context r (getRemoteIp lib r))) pre,
           ExecState := es\<rparr>)"
    unfolding bad by auto
  then show ?thesis
    unfolding ServeHTTP_decoded [OF assms(1,2)]
    by (simp add: execute_def del: batch_loop.simps)
qed

lemma batch_element_not_object_example:
  "Method ex_bad_batch_post = ''POST'' \<and>
   decode_POST ex_library ex_handler ex_bad_batch_post (fresh 0) =
     Inr (JArray [JObject [(''query'', JString ''a'')], JNumber 0x3FF0000000000000]) \<and>
   ServeHTTP ex_library ex_handler ex_bad_batch_post (fresh 0) =
     (Panicked PanicTypeAssertion,
      \<lparr>W = \<lparr>WHeader = ex_json_header, Status = None, Written = []\<rparr>,
       Calls = [\<lparr>OperationName = [], Query = ''a'', Variables = None,
                  Context = ex_context ''application/json''\<rparr>],
       ExecState = 1\<rparr>)"
proof -
  let ?pre = "[JObject [(''query'', JString ''a'')]]"
  let ?bad = "JNumber 0x3FF0000000000000"
  let ?ctx = "request_context ex_bad_batch_post (getRemoteIp ex_library ex_bad_batch_post)"
  have m: "Method ex_bad_batch_post = ''POST''"
    by (simp add: ex_bad_batch_post_def ex_request_def)
  have d: "decode_POST ex_library ex_handler ex_bad_batch_post (fresh 0) =
             Inr (JArray (?pre @ ?bad # []))"
    by (simp add: ex_bad_batch_post_def ex_request_def decode_POST_def content_type_def
             values_get_def ex_library_def ex_json_def ex_decoded_def)
  have objects: "list_all is_object ?pre" by simp
  have bad: "\<not> is_object ?bad" by simp
  have ctx: "?ctx = ex_context ''application/json''"
    by (simp add: ex_bad_batch_post_def ex_request_def request_context_def getRemoteIp_def
             values_get_def ex_library_def ex_context_def)
  have run: "sequential_results ex_handler (map (element_request ?ctx) ?pre)
               (ExecState (fresh 0 :: (nat \<times> string, nat) state)) = ([(0, ''a'')], 1)"
    by (simp add: ex_handler_def ex_executor_def element_request_def batch_request_def
             zero_request_def fresh_def)
  from batch_element_not_object [OF m d objects bad run] m d
  show ?thesis
    unfolding ctx
    by (simp add: ex_json_header_def fresh_def header_set_def
             element_request_def batch_request_def zero_request_def)
qed

text \<open>
  C4 as stated fails: a multipart request whose upload map names the field \<open>2\<close>,
  for which no file part was submitted, is answered with status 400 and the text
  \<open>JSON syntax error\<close>, and the handler returns; nothing panics.
\<close>

theorem missing_file_part_is_client_error:
  "Method ex_missing_part_post = ''POST'' \<and>
   UnmarshalMap ex_library (values_get (Form ex_missing_part_post) ''map'') =
     Inr [(''2'', [''variables.a''])] \<and>
   map_of (FormFiles ex_missing_part_post) ''2'' = None \<and>
   ServeHTTP ex_library ex_handler ex_missing_part_post (fresh 0) =
     (Returned,
      \<lparr>W = \<lparr>WHeader = [(''Content-Type'', ''text/plain; charset=utf-8''),
                        (''X-Content-Type-Options'', ''nosniff'')],
             Status = Some 400,
             Written = [Text (''JSON syntax error'' @ [CHR 0x0A])]\<rparr>,
       Calls = [], ExecState = 0\<rparr>)"
  by (simp add: ex_eval handler_eval)

text \<open>
  C4, amended: for every multipart request whose form parsing did not end in a
  panic (it succeeded, or its error was a broken pipe) and whose decoded upload map
  has an entry whose field name has no file part, the handler answers with status
  400 and the plain text \<open>JSON syntax error\<close> and returns; the executor is not called.
\<close>

theorem missing_file_part_400:
  assumes "Method r = ''POST''"
      and "content_type r = ''multipart/form-data''"
      and "ParseMultipartForm r (MaxBodySize h) \<noteq> Some OtherError"
      and "UnmarshalMap lib (values_get (Form r) ''map'') = Inr uploadsMap"
      and "(key, paths) \<in> set uploadsMap"
      and "map_of (FormFiles r) key = None"
  shows "ServeHTTP lib h r st0 =
           (Returned,
            st0\<lparr>W := http_Error
                        (header_set ''Content-Type'' ''application/json; charset=utf-8'' (W st0))
                        ''JSON syntax error'' 400\<rparr>)"
proof -
  from assms(5,6) have "\<exists>key\<in>fst ` set uploadsMap. map_of (FormFiles r) key = None"
    by force
  then have "collect_uploads (FormFiles r) uploadsMap [] = None"
    by (simp add: collect_uploads_missing)
  with assms(1-4) show ?thesis
    by (simp add: ServeHTTP_POST decode_POST_def decode_multipart_def errHandler_parse
             json_syntax_error_def)
qed

theorem missing_file_part_400_witness:
  "Method ex_second_part_missing_post = ''POST'' \<and>
   UnmarshalMap ex_library (values_get (Form ex_second_part_missing_post) ''map'') =
     Inr [(''0'', [''variables.a'']), (''2'', [''variables.b''])] \<and>
   map_of (FormFiles ex_second_part_missing_post) ''2'' = None \<and>
   ServeHTTP ex_library ex_handler ex_second_part_missing_post (fresh 0) =
     (Returned,
      \<lparr>W = \<lparr>WHeader = [(''Content-Type'', ''text/plain; charset=utf-8''),
                        (''X-Content-Type-Options'', ''nosniff'')],
             Status = Some 400,
             Written = [Text (''JSON syntax error'' @ [CHR 0x0A])]\<rparr>,
       Calls = [], ExecState = 0\<rparr>)"
proof -
  let ?r = ex_second_part_missing_post
  have m: "Method ?r = ''POST''"
    by (simp add: ex_second_part_missing_post_def ex_multipart_def ex_request_def)
  have ct: "content_type ?r = ''multipart/form-data''"
    by (simp add: ex_second_part_missing_post_def ex_multipart_def ex_request_def
             content_type_def values_get_def)
  have parsed: "ParseMultipartForm ?r (MaxBodySize ex_handler) \<noteq> Some OtherError"
    by (simp add: ex_second_part_missing_post_def ex_multipart_def ex_request_def)
  have um: "UnmarshalMap ex_library (values_get (Form ?r) ''map'') =
              Inr [(''0'', [''variables.a'']), (''2'', [''variables.b''])]"
    by (simp add: ex_second_part_missing_post_def ex_multipart_def ex_request_def
             values_get_def ex_library_def ex_upload_map_def ex_upload_maps_def ex_map_def)
  have entry: "(''2'', [''variables.b'']) \<in> set [(''0'', [''variables.a'']), (''2'', [''variables.b''])]"
    by simp
  have missing: "map_of (FormFiles ?r) ''2'' = None"
    by (simp add: ex_second_part_missing_post_def ex_multipart_def ex_request_def ex_files_def)
  from missing_file_part_400 [OF m ct parsed um entry missing, of "fresh 0"] m um missing
  show ?thesis
    by (simp add: fresh_def http_Error_def Write_def WriteHeader_def header_set_def)
qed

text \<open>
  The panic of a splice ends the request. In a multipart request whose form,
  upload map, file parts and operations were read without error, let the splices
  before the one for \<open>path\<close> have succeeded and left the tree \<open>m\<close>. When walking the
  parts that \<^verbatim>\<open>set\<close> makes of \<open>path\<close> reaches in \<open>m\<close> a node that does not match the
  next part, then \<^verbatim>\<open>set\<close> panics, and so does the handler, with the same panic, no
  response written and no call of the executor.
\<close>

lemma splice_mismatch_panics:
  assumes "Method r = ''POST''"
      and "content_type r = ''multipart/form-data''"
      and "ParseMultipartForm r (MaxBodySize h) \<noteq> Some OtherError"
      and "UnmarshalMap lib (values_get (Form r) ''map'') = Inr uploadsMap"
      and "collect_uploads (FormFiles r) uploadsMap [] = Some uploads"
      and "Unmarshal lib (values_get (Form r) ''operations'') = Inr operations"
      and "RangeUploads lib uploads = before @ (file, earlier @ path # later) # after"
      and "set_uploads operations before = Inr m0"
      and "set_paths file m0 earlier = Inr m"
      and "path_parts path = pre @ seg # post"
      and "cursor_walk m pre = Inr n"
      and "\<not> fits n seg"
  shows "\<exists>p. set_path (JFile file) m path = Inl p \<and>
           ServeHTTP lib h r st0 =
             (Panicked p,
              st0\<lparr>W := header_set ''Content-Type'' ''application/json; charset=utf-8'' (W st0)\<rparr>)"
proof -
  from assms(12) obtain p where p: "cursor_step n seg = Inl p"
    using cursor_step_fits by blast
  have fails: "set_path (JFile file) m path = Inl p"
    using set_loop_mismatch [OF assms(11) p] assms(10) by (simp add: set_path_def)
  have "set_paths file m0 (earlier @ path # later) = Inl p"
    using assms(9) fails by (simp add: set_paths_append)
  then have "set_uploads operations (RangeUploads lib uploads) = Inl p"
    using assms(7,8) by (simp add: set_uploads_append)
  with assms(1-6) have "ServeHTTP lib h r st0 =
      (Panicked p,
       st0\<lparr>W := header_set ''Content-Type'' ''application/json; charset=utf-8'' (W st0)\<rparr>)"
    by (simp add: ServeHTTP_POST decode_POST_def decode_multipart_def errHandler_parse)
  with fails show ?thesis by blast
qed

lemma splice_mismatch_panics_example:
  "path_parts ''variables.a.x'' = [PString ''variables'', PString ''a''] @ PString ''x'' # [] \<and>
   set_path (JFile ex_file0) ex_tree ''variables.a'' =
     Inr (JObject [(''query'', JString ''mutation''),
                   (''variables'',
                    JObject [(''a'', JFile ex_file0), (''b'', JNull), (''list'', JArray [JNull])])]) \<and>
   set_path (JFile ex_file0)
     (JObject [(''query'', JString ''mutation''),
               (''variables'',
                JObject [(''a'', JFile ex_file0), (''b'', JNull), (''list'', JArray [JNull])])])
     ''variables.a.x'' = Inl PanicTypeAssertion \<and>
   ServeHTTP ex_library ex_handler ex_below_file_post (fresh 0) =
     (Panicked PanicTypeAssertion,
      \<lparr>W = \<lparr>WHeader = ex_json_header, Status = None, Written = []\<rparr>,
       Calls = [], ExecState = 0\<rparr>)"
proof -
  let ?r = ex_below_file_post
  let ?m = "JObject [(''query'', JString ''mutation''),
                     (''variables'',
                      JObject [(''a'', JFile ex_file0), (''b'', JNull), (''list'', JArray [JNull])])]"
  have m: "Method ?r = ''POST''"
    by (simp add: ex_below_file_post_def ex_multipart_def ex_request_def)
  have ct: "content_type ?r = ''multipart/form-data''"
    by (simp add: ex_below_file_post_def ex_multipart_def ex_request_def
             content_type_def values_get_def)
  have parsed: "ParseMultipartForm ?r (MaxBodySize ex_handler) \<noteq> Some OtherError"
    by (simp add: ex_below_file_post_def ex_multipart_def ex_request_def)
  have um: "UnmarshalMap ex_library (values_get (Form ?r) ''map'') =
              Inr [(''0'', [''variables.a'', ''variables.a.x''])]"
    by (simp add: ex_below_file_post_def ex_multipart_def ex_request_def
             values_get_def ex_library_def ex_upload_map_def ex_upload_maps_def ex_map_def)
  have collected: "collect_uploads (FormFiles ?r) [(''0'', [''variables.a'', ''variables.a.x''])] [] =
                     Some [(ex_file0, [''variables.a'', ''variables.a.x''])]"
    by (simp add: ex_below_file_post_def ex_multipart_def ex_request_def ex_files_def)
  have ops: "Unmarshal ex_library (values_get (Form ?r) ''operations'') = Inr ex_tree"
    by (simp add: ex_below_file_post_def ex_multipart_def ex_request_def values_get_def
             ex_library_def ex_json_def ex_decoded_def ex_operations_text_def)
  have order: "RangeUploads ex_library [(ex_file0, [''variables.a'', ''variables.a.x''])] =
                 [] @ (ex_file0, [''variables.a''] @ ''variables.a.x'' # []) # []"
    by (simp add: ex_library_def)
  have before: "set_uploads ex_tree [] = Inr ex_tree" by simp
  have earlier: "set_paths ex_file0 ex_tree [''variables.a''] = Inr ?m"
    by (simp add: ex_tree_def path_eval)
  have first: "set_path (JFile ex_file0) ex_tree ''variables.a'' = Inr ?m"
    by (simp add: ex_tree_def path_eval)
  have parts: "path_parts ''variables.a.x'' = [PString ''variables'', PString ''a''] @ PString ''x'' # []"
    by (simp add: path_eval)
  have reach: "cursor_walk ?m [PString ''variables'', PString ''a''] = Inr (JFile ex_file0)"
    by simp
  have mismatch: "\<not> fits (JFile ex_file0) (PString ''x'')" by simp
  have "set_path (JFile ex_file0) ?m ''variables.a.x'' = Inl PanicTypeAssertion"
    by (simp add: path_eval)
  with splice_mismatch_panics [OF m ct parsed um collected ops order before earlier parts reach
         mismatch, of "fresh 0"] parts first
  show ?thesis
    by (simp add: ex_json_header_def fresh_def header_set_def)
qed

end
